theory Spec2Isabelle
  imports Main "HOL-Library.Word" "HOL-Library.AList"
begin

section \<open>Data model\<close>

text \<open>
  The shipper of \<^verbatim>\<open>internal/logger\<close>: a logger owns a map of context fields and shares
  a bounded channel, a cancellation signal and an HTTP client with the loggers derived from
  it. Go maps are reference values, so their contents live in an explicit store and a
  map-typed variable is an address into it (or \<^verbatim>\<open>nil\<close>).
\<close>

datatype LogLevel = DEBUG | INFO | WARN | ERROR | FATAL

text \<open>A value of type \<^verbatim>\<open>interface{}\<close>: nil, a string, or a value of some other dynamic type.\<close>

datatype iface = INil | IStr string | IInt int | IBool bool | IOther nat

text \<open>
  The contents of a \<^verbatim>\<open>map[string]interface{}\<close>, as an association list with one pair
  per key; \<^verbatim>\<open>m[k] = x\<close> is \<open>AList.update k x\<close>.
\<close>

type_synonym gomap = "(string \<times> iface) list"

datatype mapref = NilMap | MapRef nat

record LogEntry =
  Level :: LogLevel
  Message :: string
  Timestamp :: int
  Service :: string
  TraceID :: string
  UserID :: string
  Fields :: mapref

record Config =
  VictoriaLogsURL :: string
  ServiceName :: string
  BatchSize :: int
  FlushInterval :: int
  MaxRetries :: int
  Timeout :: int
  BufferSize :: int
  Async :: bool

record VictoriaLogsEntry =
  Msg :: string
  Time :: int
  Stream :: string
  LevelStr :: string
  ServiceStr :: string
  TraceId :: string
  UserId :: string
  FieldsRef :: mapref

text \<open>
  \<^verbatim>\<open>context.Context\<close> as the chain of \<^verbatim>\<open>context.WithValue\<close> pairs, innermost first.
\<close>

type_synonym gocontext = "(iface \<times> iface) list"

text \<open>Errors returned as values, and runtime panics.\<close>

datatype error = ErrBufferFull | ErrMarshal | ErrRequest | ErrTransport | ErrStatus int

datatype panic =
  AssignNilMap | CloseClosedChannel | SendClosedChannel | MakeChanSize | MakeSliceCap | TickerInterval

text \<open>A buffered channel: capacity, queued items, and whether it has been closed.\<close>

record 'a chan =
  cap :: nat
  items :: "'a list"
  closed :: bool

text \<open>What one call of \<^verbatim>\<open>sendToVictoriaLogs\<close> meets: the request cannot be built, the
  transport fails (a cancelled request context included), or a response with a status code
  arrives.\<close>

datatype http_outcome = NoRequest | NoResponse | Status int

text \<open>Lines written to standard output by the \<^verbatim>\<open>fmt.Print\<close> calls.\<close>

datatype diag = PrintBatch "LogEntry list" | PrintEntry LogEntry | PrintErr error

text \<open>
  Everything the loggers derived from one root share, and the environment: the store of
  maps with its next free address, the clock read by \<^verbatim>\<open>time.Now\<close>, the two channels, the
  cancellation flag of the root context, the background goroutine (\<open>Some\<close> its local
  \<^verbatim>\<open>batch\<close> while it waits at its \<^verbatim>\<open>select\<close>, \<open>None\<close> when there is none or it has
  returned), the outcome of the \<open>k\<close>-th call of \<^verbatim>\<open>sendToVictoriaLogs\<close>, and the observable
  effects so far (payload of each such call, each \<^verbatim>\<open>time.Sleep\<close> in nanoseconds, each
  printed line). Durations are in nanoseconds, as \<^verbatim>\<open>time.Duration\<close> is.
\<close>

record world =
  heap :: "nat \<Rightarrow> gomap"
  next_ref :: nat
  now :: int
  buffer :: "LogEntry chan"
  batchChan :: "LogEntry list chan"
  cancelled :: bool
  worker :: "LogEntry list option"
  server :: "nat \<Rightarrow> http_outcome"
  sent :: "string list"
  slept :: "int list"
  stdout :: "diag list"

text \<open>
  \<^verbatim>\<open>VictoriaLogsLogger\<close>. The client, the channels and \<^verbatim>\<open>cancel\<close> are references to
  the shared state above; \<open>wg\<close> counts the \<^verbatim>\<open>Add\<close> calls on the logger's own
  \<^verbatim>\<open>sync.WaitGroup\<close>, which only \<^verbatim>\<open>startAsyncProcessing\<close> makes.
\<close>

record logger =
  config :: Config
  ctx :: gocontext
  contextFields :: mapref
  serviceName :: string
  wg :: nat

section \<open>Delivery\<close>

text \<open>Modelled from the spec: \<^verbatim>\<open>LogLevel.String\<close>, which the source calls and does not
  define; the wire format names the levels in upper case.\<close>

fun level_String :: "LogLevel \<Rightarrow> string" where
  "level_String DEBUG = ''DEBUG''"
| "level_String INFO = ''INFO''"
| "level_String WARN = ''WARN''"
| "level_String ERROR = ''ERROR''"
| "level_String FATAL = ''FATAL''"

definition print :: "diag \<Rightarrow> world \<Rightarrow> world" where
  "print d w = w\<lparr>stdout := stdout w @ [d]\<rparr>"

text \<open>
  \<^verbatim>\<open>sendToVictoriaLogs\<close>: one delivery attempt. It fails when the request cannot be built,
  when the transport fails, and when the status is 400 or more.
\<close>

definition sendToVictoriaLogs :: "logger \<Rightarrow> string \<Rightarrow> world \<Rightarrow> error option \<times> world" where
  "sendToVictoriaLogs v data w =
     (let w1 = w\<lparr>sent := sent w @ [data]\<rparr> in
      case server w (length (sent w)) of
        NoRequest \<Rightarrow> (Some ErrRequest, w1)
      | NoResponse \<Rightarrow> (Some ErrTransport, w1)
      | Status code \<Rightarrow> if code \<ge> 400 then (Some (ErrStatus code), w1) else (None, w1))"

text \<open>
  \<^verbatim>\<open>time.Duration(n) * time.Second\<close>: a product of 64-bit signed integers, which wraps,
  read back in nanoseconds.
\<close>

definition Second :: "64 word" where
  "Second = 1000000000"

definition seconds :: "int \<Rightarrow> int" where
  "seconds n = sint (word_of_int n * Second)"

definition time_Sleep :: "int \<Rightarrow> world \<Rightarrow> world" where
  "time_Sleep d w = w\<lparr>slept := slept w @ [d]\<rparr>"

text \<open>The retry loop of \<^verbatim>\<open>sendBatch\<close>, entered with \<open>i = 0\<close>.\<close>

function retry_from :: "logger \<Rightarrow> string \<Rightarrow> int \<Rightarrow> world \<Rightarrow> world" where
  "retry_from v data i w =
     (if i < MaxRetries (config v) then
        (case sendToVictoriaLogs v data w of
           (None, w1) \<Rightarrow> w1
         | (Some err, w1) \<Rightarrow> retry_from v data (i + 1) (time_Sleep (seconds (i + 1)) (print (PrintErr err) w1)))
      else w)"
  by pat_completeness auto
termination
  by (relation "measure (\<lambda>(v, data, i, w). nat (MaxRetries (config v) - i))") auto

declare retry_from.simps [simp del]

text \<open>
  The serialisation loop of \<^verbatim>\<open>sendBatch\<close>. \<^verbatim>\<open>json.Marshal\<close> is library code: it is the
  parameter \<open>js\<close>, which reads the entry and the store and returns \<open>None\<close> when it fails.
\<close>

definition vlEntry_of :: "LogEntry \<Rightarrow> VictoriaLogsEntry" where
  "vlEntry_of entry =
     \<lparr>Msg = Message entry, Time = Timestamp entry, Stream = '''',
      LevelStr = level_String (Level entry), ServiceStr = Service entry,
      TraceId = TraceID entry, UserId = UserID entry, FieldsRef = Fields entry\<rparr>"

type_synonym marshal = "(nat \<Rightarrow> gomap) \<Rightarrow> VictoriaLogsEntry \<Rightarrow> string option"

fun write_entries :: "marshal \<Rightarrow> LogEntry list \<Rightarrow> string \<Rightarrow> world \<Rightarrow> string \<times> world" where
  "write_entries js [] buff w = (buff, w)"
| "write_entries js (entry # rest) buff w =
     (case js (heap w) (vlEntry_of entry) of
        None \<Rightarrow> write_entries js rest buff (print (PrintEntry entry) (print (PrintErr ErrMarshal) w))
      | Some data \<Rightarrow> write_entries js rest (buff @ data @ [CHR 0x0A]) (print (PrintEntry entry) w))"

definition sendBatch :: "marshal \<Rightarrow> logger \<Rightarrow> LogEntry list \<Rightarrow> world \<Rightarrow> world" where
  "sendBatch js v batch w =
     (let w0 = print (PrintBatch batch) w in
      if length batch = 0 then w0
      else (case write_entries js batch [] w0 of (buff, w1) \<Rightarrow> retry_from v buff 0 w1))"

section \<open>Entries and the logging calls\<close>

definition deref :: "world \<Rightarrow> mapref \<Rightarrow> gomap" where
  "deref w r = (case r of NilMap \<Rightarrow> [] | MapRef a \<Rightarrow> heap w a)"

text \<open>\<^verbatim>\<open>for k, x := range src { dst[k] = x }\<close> for a destination that is not nil.\<close>

fun range_assign :: "gomap \<Rightarrow> nat \<Rightarrow> world \<Rightarrow> world" where
  "range_assign [] a w = w"
| "range_assign ((k, x) # rest) a w =
     range_assign rest a (w\<lparr>heap := (heap w)(a := AList.update k x (heap w a))\<rparr>)"

text \<open>
  \<^verbatim>\<open>createLogEntry\<close>: the entry takes the caller's map itself as its \<^verbatim>\<open>Fields\<close>, and the
  loop writes the logger's context fields into that map. An assignment to an entry of a nil
  map panics, which the first iteration does when \<^verbatim>\<open>fields\<close> is nil.
\<close>

definition createLogEntry ::
  "logger \<Rightarrow> LogLevel \<Rightarrow> string \<Rightarrow> mapref \<Rightarrow> world \<Rightarrow> panic + (LogEntry \<times> world)" where
  "createLogEntry v level msg flds w =
     (let entry = \<lparr>Level = level, Message = msg, Timestamp = now w, Service = serviceName v,
                   TraceID = '''', UserID = '''', Fields = flds\<rparr>
      in case flds of
           NilMap \<Rightarrow> if deref w (contextFields v) = [] then Inr (entry, w) else Inl AssignNilMap
         | MapRef a \<Rightarrow> Inr (entry, range_assign (deref w (contextFields v)) a w))"

text \<open>\<^verbatim>\<open>ctx.Value(key)\<close>: the innermost value stored under the key, nil when there is none.\<close>

definition ctx_Value :: "gocontext \<Rightarrow> iface \<Rightarrow> iface" where
  "ctx_Value c key = (case map_of c key of None \<Rightarrow> INil | Some x \<Rightarrow> x)"

text \<open>The first half of \<^verbatim>\<open>log\<close>: the entry, with the correlation identifiers of the context.\<close>

definition log_entry ::
  "logger \<Rightarrow> gocontext \<Rightarrow> LogLevel \<Rightarrow> string \<Rightarrow> mapref \<Rightarrow> world \<Rightarrow> panic + (LogEntry \<times> world)" where
  "log_entry v c info msg flds w =
     (case createLogEntry v info msg flds w of
        Inl p \<Rightarrow> Inl p
      | Inr (entry, w1) \<Rightarrow>
          (let traceID = ctx_Value c (IStr ''trace_id'');
               entry1 = (if traceID \<noteq> INil
                         then (case traceID of IStr tid \<Rightarrow> entry\<lparr>TraceID := tid\<rparr> | _ \<Rightarrow> entry)
                         else entry);
               userId = ctx_Value c (IStr ''user_id'');
               entry2 = (if userId \<noteq> INil
                         then (case userId of IStr uid \<Rightarrow> entry1\<lparr>UserID := uid\<rparr> | _ \<Rightarrow> entry1)
                         else entry1)
           in Inr (entry2, w1)))"

text \<open>
  \<^verbatim>\<open>select { case ch <- x: default: }\<close> on a buffered channel: a send on a closed channel
  panics; otherwise the item is queued when there is room (\<open>Some\<close> the new channel) and the
  default case runs when there is none (\<open>None\<close>).
\<close>

definition try_send :: "'a \<Rightarrow> 'a chan \<Rightarrow> panic + 'a chan option" where
  "try_send x ch =
     (if closed ch then Inl SendClosedChannel
      else if length (items ch) < cap ch then Inr (Some (ch\<lparr>items := items ch @ [x]\<rparr>))
      else Inr None)"

text \<open>\<^verbatim>\<open>log\<close>, which returns nothing: the result is the new state, or a panic.\<close>

definition log :: "marshal \<Rightarrow> logger \<Rightarrow> gocontext \<Rightarrow> LogLevel \<Rightarrow> string \<Rightarrow> mapref \<Rightarrow> world \<Rightarrow> panic + world" where
  "log js v c info msg flds w =
     (case log_entry v c info msg flds w of
        Inl p \<Rightarrow> Inl p
      | Inr (entry, w1) \<Rightarrow>
          if Async (config v) then
            (case try_send entry (buffer w1) of
               Inl p \<Rightarrow> Inl p
             | Inr (Some ch) \<Rightarrow> Inr (w1\<lparr>buffer := ch\<rparr>)
             | Inr None \<Rightarrow> Inr w1)
          else Inr (sendBatch js v [entry] w1))"


definition Info :: "marshal \<Rightarrow> logger \<Rightarrow> gocontext \<Rightarrow> string \<Rightarrow> mapref \<Rightarrow> world \<Rightarrow> panic + world" where
  "Info js v c msg flds w = log js v c INFO msg flds w"




text \<open>\<^verbatim>\<open>BatchLog\<close>: the loop of the asynchronous branch stops at the first entry that does
  not fit; the synchronous branch returns nil whatever \<^verbatim>\<open>sendBatch\<close> did.\<close>

fun offer_all :: "LogEntry list \<Rightarrow> world \<Rightarrow> panic + (error option \<times> world)" where
  "offer_all [] w = Inr (None, w)"
| "offer_all (entry # rest) w =
     (case try_send entry (buffer w) of
        Inl p \<Rightarrow> Inl p
      | Inr (Some ch) \<Rightarrow> offer_all rest (w\<lparr>buffer := ch\<rparr>)
      | Inr None \<Rightarrow> Inr (Some ErrBufferFull, w))"

definition BatchLog :: "marshal \<Rightarrow> logger \<Rightarrow> LogEntry list \<Rightarrow> world \<Rightarrow> panic + (error option \<times> world)" where
  "BatchLog js v entries w =
     (if Async (config v) then offer_all entries w
      else Inr (None, sendBatch js v entries w))"

section \<open>Derived loggers\<close>

text \<open>\<^verbatim>\<open>make(map[string]interface{})\<close>: a fresh, empty map.\<close>

definition make_map :: "world \<Rightarrow> nat \<times> world" where
  "make_map w = (next_ref w, w\<lparr>heap := (heap w)(next_ref w := []), next_ref := Suc (next_ref w)\<rparr>)"


definition WithFields :: "logger \<Rightarrow> mapref \<Rightarrow> world \<Rightarrow> logger \<times> world" where
  "WithFields v flds w =
     (case make_map w of
        (a, w1) \<Rightarrow>
          (let newLogger = \<lparr>config = config v, ctx = ctx v, contextFields = MapRef a,
                            serviceName = serviceName v, wg = 0\<rparr>;
               w2 = range_assign (deref w1 (contextFields v)) a w1
           in (newLogger, range_assign (deref w2 flds) a w2)))"

definition WithService :: "logger \<Rightarrow> string \<Rightarrow> world \<Rightarrow> logger \<times> world" where
  "WithService v service w =
     (case make_map w of
        (a, w1) \<Rightarrow>
          (let newLogger = \<lparr>config = config v, ctx = ctx v, contextFields = MapRef a,
                            serviceName = service, wg = 0\<rparr>
           in (newLogger, range_assign (deref w1 (contextFields v)) a w1)))"

section \<open>The background worker and the lifecycle\<close>

definition zero_entry :: LogEntry where
  "zero_entry = \<lparr>Level = DEBUG, Message = [], Timestamp = 0, Service = [],
                  TraceID = [], UserID = [], Fields = NilMap\<rparr>"

text \<open>
  \<^verbatim>\<open>x := <-ch\<close> as a case of a \<^verbatim>\<open>select\<close>: the oldest queued item; the zero value when the
  channel is closed and empty; not ready (\<open>None\<close>) when it is open and empty.
\<close>

definition chan_recv :: "'a \<Rightarrow> 'a chan \<Rightarrow> ('a \<times> 'a chan) option" where
  "chan_recv zero ch =
     (case items ch of
        x # rest \<Rightarrow> Some (x, ch\<lparr>items := rest\<rparr>)
      | [] \<Rightarrow> if closed ch then Some (zero, ch) else None)"

definition close_chan :: "'a chan \<Rightarrow> panic + 'a chan" where
  "close_chan ch = (if closed ch then Inl CloseClosedChannel else Inr (ch\<lparr>closed := True\<rparr>))"

text \<open>\<^verbatim>\<open>make([]LogEntry, 0, v.config.BatchSize)\<close>, which panics on a negative capacity.\<close>

definition NewLoggerEntryBatch :: "logger \<Rightarrow> panic + LogEntry list" where
  "NewLoggerEntryBatch v = (if BatchSize (config v) < 0 then Inl MakeSliceCap else Inr [])"

text \<open>
  One turn of the worker's loop. The event is the case its \<^verbatim>\<open>select\<close> takes; a case that
  is not ready (nothing to receive, context not cancelled) leaves the worker waiting. The
  result is the next \<^verbatim>\<open>batch\<close>, or \<open>None\<close> when the goroutine has returned.
\<close>

datatype wevent = Recv | Tick | Done

definition worker_step ::
  "marshal \<Rightarrow> logger \<Rightarrow> wevent \<Rightarrow> LogEntry list \<Rightarrow> world \<Rightarrow> panic + (LogEntry list option \<times> world)" where
  "worker_step js v ev batch w =
     (case ev of
        Recv \<Rightarrow>
          (case chan_recv zero_entry (buffer w) of
             None \<Rightarrow> Inr (Some batch, w)
           | Some (entry, ch) \<Rightarrow>
               (let batch1 = batch @ [entry];
                    w1 = sendBatch js v batch1 (w\<lparr>buffer := ch\<rparr>)
                in case NewLoggerEntryBatch v of
                     Inl p \<Rightarrow> Inl p
                   | Inr b \<Rightarrow> Inr (Some b, w1)))
      | Tick \<Rightarrow>
          (let w1 = (if length batch > 0 then sendBatch js v batch w else w)
           in case NewLoggerEntryBatch v of
                Inl p \<Rightarrow> Inl p
              | Inr b \<Rightarrow> Inr (Some b, w1))
      | Done \<Rightarrow>
          if cancelled w
          then Inr (None, if length batch > 0 then sendBatch js v batch w else w)
          else Inr (Some batch, w))"

text \<open>The worker taking the given cases in turn, and then the cancellation case.\<close>

fun worker_exit ::
  "marshal \<Rightarrow> logger \<Rightarrow> wevent list \<Rightarrow> LogEntry list \<Rightarrow> world \<Rightarrow> panic + (LogEntry list option \<times> world)" where
  "worker_exit js v [] batch w = worker_step js v Done batch w"
| "worker_exit js v (ev # evs) batch w =
     (case worker_step js v ev batch w of
        Inl p \<Rightarrow> Inl p
      | Inr (None, w1) \<Rightarrow> Inr (None, w1)
      | Inr (Some b, w1) \<Rightarrow> worker_exit js v evs b w1)"

text \<open>
  \<^verbatim>\<open>startAsyncProcessing\<close>: the goroutine makes its ticker, which panics on an interval
  that is not positive, and starts with a new batch.
\<close>

definition startAsyncProcessing :: "logger \<Rightarrow> world \<Rightarrow> panic + (logger \<times> world)" where
  "startAsyncProcessing v w =
     (if FlushInterval (config v) \<le> 0 then Inl TickerInterval
      else (case NewLoggerEntryBatch v of
              Inl p \<Rightarrow> Inl p
            | Inr batch \<Rightarrow> Inr (v\<lparr>wg := wg v + 1\<rparr>, w\<lparr>worker := Some batch\<rparr>)))"

definition DefaultConfig :: Config where
  "DefaultConfig =
     \<lparr>VictoriaLogsURL = ''http://localhost:9428/insert/jsonline'',
      ServiceName = ''default-service'', BatchSize = 100, FlushInterval = 5 * 1000000000,
      MaxRetries = 3, Timeout = 30 * 1000000000, BufferSize = 1000, Async = True\<rparr>"

definition NewVictoriaLogsLogger :: "Config option \<Rightarrow> world \<Rightarrow> panic + (logger \<times> world)" where
  "NewVictoriaLogsLogger cfg w =
     (let conf = (case cfg of None \<Rightarrow> DefaultConfig | Some c \<Rightarrow> c)
      in if BufferSize conf < 0 then Inl MakeChanSize
         else (case make_map (w\<lparr>buffer := \<lparr>cap = nat (BufferSize conf), items = [], closed = False\<rparr>,
                                 batchChan := \<lparr>cap = nat (BufferSize conf), items = [], closed = False\<rparr>,
                                 cancelled := False, worker := None\<rparr>) of
                 (a, w1) \<Rightarrow>
                   (let lg = \<lparr>config = conf, ctx = [], contextFields = MapRef a,
                              serviceName = ServiceName conf, wg = 0\<rparr>
                    in if Async conf then startAsyncProcessing lg w1 else Inr (lg, w1))))"

text \<open>
  \<^verbatim>\<open>v.wg.Wait()\<close>: returns at once when the logger's wait group was never added to or the
  goroutine has returned; otherwise it lasts until the goroutine returns, after the cases
  \<open>sched\<close> that its \<^verbatim>\<open>select\<close> still takes.
\<close>

definition wg_Wait :: "marshal \<Rightarrow> logger \<Rightarrow> wevent list \<Rightarrow> world \<Rightarrow> panic + world" where
  "wg_Wait js v sched w =
     (if wg v = 0 then Inr w
      else (case worker w of
              None \<Rightarrow> Inr w
            | Some batch \<Rightarrow>
                (case worker_exit js v sched batch w of
                   Inl p \<Rightarrow> Inl p
                 | Inr (b, w1) \<Rightarrow> Inr (w1\<lparr>worker := b\<rparr>))))"

definition Close :: "marshal \<Rightarrow> logger \<Rightarrow> wevent list \<Rightarrow> world \<Rightarrow> panic + (error option \<times> world)" where
  "Close js v sched w =
     (case wg_Wait js v sched (w\<lparr>cancelled := True\<rparr>) of
        Inl p \<Rightarrow> Inl p
      | Inr w1 \<Rightarrow>
          (case close_chan (buffer w1) of
             Inl p \<Rightarrow> Inl p
           | Inr b \<Rightarrow>
               (case close_chan (batchChan w1) of
                  Inl p \<Rightarrow> Inl p
                | Inr bc \<Rightarrow> Inr (None, w1\<lparr>buffer := b, batchChan := bc\<rparr>))))"

text \<open>
  Producers and the worker of the root logger \<open>v\<close> run concurrently; a run is one
  interleaving of logging calls and turns of the worker's loop.
\<close>

datatype action = Call logger gocontext LogLevel string mapref | Select wevent

definition sys_step :: "marshal \<Rightarrow> logger \<Rightarrow> action \<Rightarrow> world \<Rightarrow> panic + world" where
  "sys_step js v act w =
     (case act of
        Call u c info msg flds \<Rightarrow> log js u c info msg flds w
      | Select ev \<Rightarrow>
          (case worker w of
             None \<Rightarrow> Inr w
           | Some batch \<Rightarrow>
               (case worker_step js v ev batch w of
                  Inl p \<Rightarrow> Inl p
                | Inr (b, w1) \<Rightarrow> Inr (w1\<lparr>worker := b\<rparr>))))"

fun sys_run :: "marshal \<Rightarrow> logger \<Rightarrow> action list \<Rightarrow> world \<Rightarrow> panic + world" where
  "sys_run js v [] w = Inr w"
| "sys_run js v (act # acts) w =
     (case sys_step js v act w of
        Inl p \<Rightarrow> Inl p
      | Inr w1 \<Rightarrow> sys_run js v acts w1)"

section \<open>Auxiliary notions and sample values\<close>

text \<open>The outcomes for which \<^verbatim>\<open>sendToVictoriaLogs\<close> returns an error.\<close>

definition http_fails :: "http_outcome \<Rightarrow> bool" where
  "http_fails r = (case r of Status code \<Rightarrow> code \<ge> 400 | _ \<Rightarrow> True)"

text \<open>
  The payload as the wire format describes it, to compare with what the serialisation loop
  builds: one line for each entry that serialises, in order, and nothing for the others.
\<close>

fun ndjson :: "marshal \<Rightarrow> (nat \<Rightarrow> gomap) \<Rightarrow> LogEntry list \<Rightarrow> string" where
  "ndjson js h [] = []"
| "ndjson js h (entry # rest) =
     (case js h (vlEntry_of entry) of
        None \<Rightarrow> ndjson js h rest
      | Some data \<Rightarrow> data @ [CHR 0x0A] @ ndjson js h rest)"

text \<open>The configuration of \<^verbatim>\<open>cmd/main.go\<close>.\<close>

definition demo_config :: Config where
  "demo_config =
     \<lparr>VictoriaLogsURL = ''http://localhost:9428/insert/jsonline'', ServiceName = ''demo-api'',
      BatchSize = 50, FlushInterval = 3 * 1000000000, MaxRetries = 3,
      Timeout = 5 * 1000000000, BufferSize = 500, Async = True\<rparr>"

text \<open>Servers: one that never answers, one that accepts everything, one that refuses the
  first two exchanges.\<close>

definition down :: "nat \<Rightarrow> http_outcome" where
  "down k = NoResponse"

definition up :: "nat \<Rightarrow> http_outcome" where
  "up k = Status 200"

definition flaky :: "nat \<Rightarrow> http_outcome" where
  "flaky k = (if k < 2 then Status 503 else Status 200)"

text \<open>
  A stand-in for \<^verbatim>\<open>json.Marshal\<close> in the examples: it fails on an entry whose fields hold a
  value that JSON cannot express (a channel, say), and else yields the message.
\<close>

definition js_demo :: marshal where
  "js_demo h e =
     (case FieldsRef e of
        NilMap \<Rightarrow> Some (Msg e)
      | MapRef a \<Rightarrow>
          if list_ex (\<lambda>(k, x). case x of IOther _ \<Rightarrow> True | _ \<Rightarrow> False) (h a) then None
          else Some (Msg e))"

text \<open>A state in which nothing has happened, and a synchronous logger without context
  fields.\<close>

definition world0 :: "(nat \<Rightarrow> http_outcome) \<Rightarrow> world" where
  "world0 srv =
     \<lparr>heap = (\<lambda>a. []), next_ref = 0, now = 0,
      buffer = \<lparr>cap = 0, items = [], closed = False\<rparr>,
      batchChan = \<lparr>cap = 0, items = [], closed = False\<rparr>,
      cancelled = False, worker = None, server = srv, sent = [], slept = [], stdout = []\<rparr>"

definition sync_logger :: logger where
  "sync_logger = \<lparr>config = demo_config\<lparr>Async := False\<rparr>, ctx = [], contextFields = MapRef 0,
                   serviceName = ''demo-api'', wg = 0\<rparr>"

text \<open>What a caller does with a map of its own: a composite literal, and \<^verbatim>\<open>m[k] = x\<close>.\<close>

definition new_map :: "gomap \<Rightarrow> world \<Rightarrow> mapref \<times> world" where
  "new_map m w =
     (MapRef (next_ref w), w\<lparr>heap := (heap w)(next_ref w := m), next_ref := Suc (next_ref w)\<rparr>)"

definition map_assign :: "mapref \<Rightarrow> string \<Rightarrow> iface \<Rightarrow> world \<Rightarrow> panic + world" where
  "map_assign r k x w =
     (case r of
        NilMap \<Rightarrow> Inl AssignNilMap
      | MapRef a \<Rightarrow> Inr (w\<lparr>heap := (heap w)(a := AList.update k x (heap w a))\<rparr>))"

text \<open>
  The custom logger of the README:
  \<^verbatim>\<open>logger.WithFields(map[string]interface{}{"module": "user-service"}).WithService("user-api")\<close>
  on a logger made with the configuration of \<^verbatim>\<open>cmd/main.go\<close>.
\<close>

definition readme_userLogger :: "panic + (logger \<times> world)" where
  "readme_userLogger =
     (case NewVictoriaLogsLogger (Some demo_config) (world0 up) of
        Inl p \<Rightarrow> Inl p
      | Inr (root, w1) \<Rightarrow>
          (case new_map [(''module'', IStr ''user-service'')] w1 of
             (m, w2) \<Rightarrow>
               (case WithFields root m w2 of
                  (l1, w3) \<Rightarrow> Inr (WithService l1 ''user-api'' w3))))"

text \<open>
  A caller that logs with a map of its own on the logger of \<^verbatim>\<open>cmd/main.go\<close>: the result is
  the caller's map and the state after the call.
\<close>

definition caller_logs :: "panic + (mapref \<times> world)" where
  "caller_logs =
     (case NewVictoriaLogsLogger (Some demo_config) (world0 up) of
        Inl p \<Rightarrow> Inl p
      | Inr (root, w1) \<Rightarrow>
          (case new_map [(''action'', IStr ''get_user'')] w1 of
             (m, w2) \<Rightarrow>
               (case Info js_demo root [] ''Processing request'' m w2 of
                  Inl p \<Rightarrow> Inl p
                | Inr w3 \<Rightarrow> Inr (m, w3))))"

text \<open>The logger of \<^verbatim>\<open>cmd/main.go\<close> and the state right after its construction.\<close>

definition demo_root :: logger where
  "demo_root = fst (projr (NewVictoriaLogsLogger (Some demo_config) (world0 up)))"

definition demo_world :: world where
  "demo_world = snd (projr (NewVictoriaLogsLogger (Some demo_config) (world0 up)))"

text \<open>A context that carries a trace identifier and no user identifier.\<close>

definition trace_ctx :: gocontext where
  "trace_ctx = [(IStr ''trace_id'', IStr ''trace_abc123'')]"


text \<open>An entry whose fields hold a value that \<open>js_demo\<close> rejects, in a state where its map
  exists, and entries that serialise.\<close>

definition chan_world :: world where
  "chan_world = (world0 up)\<lparr>heap := (\<lambda>a. [])(5 := [(''ch'', IOther 0)]), next_ref := 6\<rparr>"

definition bad_entry :: LogEntry where
  "bad_entry = zero_entry\<lparr>Message := ''bad'', Fields := MapRef 5\<rparr>"

definition good_entry :: "string \<Rightarrow> LogEntry" where
  "good_entry m = zero_entry\<lparr>Message := m\<rparr>"



text \<open>The batches that \<^verbatim>\<open>sendBatch\<close> was called with, read off its first printed line.\<close>

fun flushes :: "diag list \<Rightarrow> LogEntry list list" where
  "flushes [] = []"
| "flushes (PrintBatch b # rest) = b # flushes rest"
| "flushes (PrintEntry e # rest) = flushes rest"
| "flushes (PrintErr e # rest) = flushes rest"

text \<open>The logging calls of a run, in order, and what relates an entry to the call that made it.\<close>

fun calls :: "action list \<Rightarrow> (logger \<times> gocontext \<times> LogLevel \<times> string \<times> mapref) list" where
  "calls [] = []"
| "calls (Call u c info msg flds # rest) = (u, c, info, msg, flds) # calls rest"
| "calls (Select ev # rest) = calls rest"

fun made_by :: "LogEntry \<Rightarrow> logger \<times> gocontext \<times> LogLevel \<times> string \<times> mapref \<Rightarrow> bool" where
  "made_by e (u, c, info, msg, flds) =
     (Level e = info \<and> Message e = msg \<and> Service e = serviceName u \<and> Fields e = flds)"

text \<open>What a step of a run leaves alone when the context fields of the callers are empty
  and the worker holds no entries between two turns.\<close>

definition same_frame :: "world \<Rightarrow> world \<Rightarrow> bool" where
  "same_frame w w1 =
     (heap w1 = heap w \<and> server w1 = server w \<and> closed (buffer w1) = closed (buffer w)
      \<and> cap (buffer w1) = cap (buffer w) \<and> slept w1 = slept w
      \<and> (worker w1 = Some [] \<or> worker w1 = None))"


text \<open>Ten calls on the logger of \<^verbatim>\<open>cmd/main.go\<close>, in quick succession, while the worker takes
  what has arrived.\<close>

definition ten_messages :: "string list" where
  "ten_messages = [''m0'', ''m1'', ''m2'', ''m3'', ''m4'', ''m5'', ''m6'', ''m7'', ''m8'', ''m9'']"

definition ten_calls :: "action list" where
  "ten_calls =
     map (\<lambda>m. Call demo_root [] INFO m NilMap) (take 4 ten_messages)
     @ [Select Recv, Select Tick, Select Recv]
     @ map (\<lambda>m. Call demo_root [] INFO m NilMap) (drop 4 ten_messages)
     @ replicate 8 (Select Recv)"

text \<open>The state in which a caller has made the map \<^verbatim>\<open>{"action": "get_user"}\<close>, at address 1.\<close>

definition caller_world :: world where
  "caller_world = snd (new_map [(''action'', IStr ''get_user'')] demo_world)"

section \<open>The retry schedule of a delivery\<close>

lemma seconds_exact:
  assumes "0 \<le> n" "n \<le> 9223372036"
  shows "seconds n = n * 1000000000"
proof -
  have "word_of_int n * Second = (word_of_int (n * 1000000000) :: 64 word)"
    unfolding Second_def by (simp only: of_int_mult of_int_numeral)
  then have "seconds n = sint (word_of_int (n * 1000000000) :: 64 word)"
    by (simp only: seconds_def)
  also have "\<dots> = signed_take_bit 63 (n * 1000000000)"
    by (simp only: sint_sbintrunc') simp
  also have "\<dots> = n * 1000000000"
    using assms by (intro signed_take_bit_int_eq_self) auto
  finally show ?thesis .
qed

lemma sendToVictoriaLogs_fails:
  "http_fails (server w (length (sent w))) \<Longrightarrow>
   \<exists>err. sendToVictoriaLogs v data w = (Some err, w\<lparr>sent := sent w @ [data]\<rparr>)"
  by (auto simp: sendToVictoriaLogs_def http_fails_def Let_def split: http_outcome.splits)

lemma sendToVictoriaLogs_ok:
  "\<not> http_fails (server w (length (sent w))) \<Longrightarrow>
   sendToVictoriaLogs v data w = (None, w\<lparr>sent := sent w @ [data]\<rparr>)"
  by (auto simp: sendToVictoriaLogs_def http_fails_def Let_def split: http_outcome.splits)

lemma retry_from_all_fail:
  assumes "\<forall>k. http_fails (server w k)"
  shows "sent (retry_from v data i w) = sent w @ replicate (nat (MaxRetries (config v) - i)) data
       \<and> slept (retry_from v data i w) = slept w @ map seconds [i + 1..MaxRetries (config v)]
       \<and> buffer (retry_from v data i w) = buffer w
       \<and> heap (retry_from v data i w) = heap w"
  using assms
proof (induction v data i w rule: retry_from.induct)
  case (1 v data i w)
  show ?case
  proof (cases "i < MaxRetries (config v)")
    case False
    then show ?thesis by (simp add: retry_from.simps)
  next
    case True
    from "1.prems" have "http_fails (server w (length (sent w)))" by simp
    then obtain err where e: "sendToVictoriaLogs v data w = (Some err, w\<lparr>sent := sent w @ [data]\<rparr>)"
      using sendToVictoriaLogs_fails by blast
    let ?w2 = "time_Sleep (seconds (i + 1)) (print (PrintErr err) (w\<lparr>sent := sent w @ [data]\<rparr>))"
    have srv: "\<forall>k. http_fails (server ?w2 k)"
      using "1.prems" by (simp add: time_Sleep_def print_def)
    have IH: "sent (retry_from v data (i + 1) ?w2) = sent ?w2 @ replicate (nat (MaxRetries (config v) - (i + 1))) data
       \<and> slept (retry_from v data (i + 1) ?w2) = slept ?w2 @ map seconds [i + 1 + 1..MaxRetries (config v)]
       \<and> buffer (retry_from v data (i + 1) ?w2) = buffer ?w2
       \<and> heap (retry_from v data (i + 1) ?w2) = heap ?w2"
      using "1.IH"[OF True e[symmetric] refl srv] .
    have unf: "retry_from v data i w = retry_from v data (i + 1) ?w2"
      using True e by (subst retry_from.simps) simp
    have n: "nat (MaxRetries (config v) - i) = Suc (nat (MaxRetries (config v) - (i + 1)))"
      using True by simp
    have u: "[i + 1..MaxRetries (config v)] = (i + 1) # [i + 1 + 1..MaxRetries (config v)]"
      using True by (simp add: upto_rec1)
    show ?thesis
      unfolding unf n u using IH
      by (simp add: time_Sleep_def print_def replicate_append_same)
  qed
qed

lemma write_entries_eq:
  "\<exists>out. write_entries js batch buff w = (buff @ ndjson js (heap w) batch, w\<lparr>stdout := stdout w @ out\<rparr>)"
proof (induction batch arbitrary: buff w)
  case Nil
  have "w = w\<lparr>stdout := stdout w @ []\<rparr>" by simp
  then show ?case by (metis append_Nil2 ndjson.simps(1) write_entries.simps(1))
next
  case (Cons entry rest)
  show ?case
  proof (cases "js (heap w) (vlEntry_of entry)")
    case None
    let ?w1 = "print (PrintEntry entry) (print (PrintErr ErrMarshal) w)"
    from Cons.IH[of buff ?w1] obtain out where
      "write_entries js rest buff ?w1 = (buff @ ndjson js (heap ?w1) rest, ?w1\<lparr>stdout := stdout ?w1 @ out\<rparr>)"
      by blast
    then have "write_entries js (entry # rest) buff w =
        (buff @ ndjson js (heap w) (entry # rest),
         w\<lparr>stdout := stdout w @ ([PrintErr ErrMarshal, PrintEntry entry] @ out)\<rparr>)"
      using None by (simp add: print_def)
    then show ?thesis by blast
  next
    case (Some data)
    let ?w1 = "print (PrintEntry entry) w"
    from Cons.IH[of "buff @ data @ [CHR 0x0A]" ?w1] obtain out where
      "write_entries js rest (buff @ data @ [CHR 0x0A]) ?w1 =
         ((buff @ data @ [CHR 0x0A]) @ ndjson js (heap ?w1) rest, ?w1\<lparr>stdout := stdout ?w1 @ out\<rparr>)"
      by blast
    then have "write_entries js (entry # rest) buff w =
        (buff @ ndjson js (heap w) (entry # rest),
         w\<lparr>stdout := stdout w @ ([PrintEntry entry] @ out)\<rparr>)"
      using Some by (simp add: print_def)
    then show ?thesis by blast
  qed
qed

lemma sendBatch_nonempty:
  assumes "batch \<noteq> []"
  shows "\<exists>out. sendBatch js v batch w =
           retry_from v (ndjson js (heap w) batch) 0 (w\<lparr>stdout := stdout w @ PrintBatch batch # out\<rparr>)"
proof -
  let ?w0 = "print (PrintBatch batch) w"
  obtain out where
    "write_entries js batch [] ?w0 = ([] @ ndjson js (heap ?w0) batch, ?w0\<lparr>stdout := stdout ?w0 @ out\<rparr>)"
    using write_entries_eq by blast
  then have "sendBatch js v batch w =
      retry_from v (ndjson js (heap w) batch) 0 (w\<lparr>stdout := stdout w @ PrintBatch batch # out\<rparr>)"
    using assms by (simp add: sendBatch_def print_def Let_def)
  then show ?thesis by blast
qed

lemma retry_from_two_fail:
  assumes "3 \<le> MaxRetries (config v)"
    and "http_fails (server w (length (sent w)))"
    and "http_fails (server w (length (sent w) + 1))"
    and "\<not> http_fails (server w (length (sent w) + 2))"
  shows "sent (retry_from v data 0 w) = sent w @ [data, data, data]
       \<and> slept (retry_from v data 0 w) = slept w @ [seconds 1, seconds 2]
       \<and> buffer (retry_from v data 0 w) = buffer w"
proof -
  obtain e1 where s1: "sendToVictoriaLogs v data w = (Some e1, w\<lparr>sent := sent w @ [data]\<rparr>)"
    using sendToVictoriaLogs_fails assms(2) by blast
  let ?w1 = "time_Sleep (seconds (0 + 1)) (print (PrintErr e1) (w\<lparr>sent := sent w @ [data]\<rparr>))"
  have r1: "retry_from v data 0 w = retry_from v data (0 + 1) ?w1"
    using assms(1) s1 by (subst retry_from.simps) simp
  have "http_fails (server ?w1 (length (sent ?w1)))"
    using assms(3) by (simp add: time_Sleep_def print_def)
  then obtain e2 where s2: "sendToVictoriaLogs v data ?w1 = (Some e2, ?w1\<lparr>sent := sent ?w1 @ [data]\<rparr>)"
    using sendToVictoriaLogs_fails by blast
  let ?w2 = "time_Sleep (seconds (0 + 1 + 1)) (print (PrintErr e2) (?w1\<lparr>sent := sent ?w1 @ [data]\<rparr>))"
  have r2: "retry_from v data (0 + 1) ?w1 = retry_from v data (0 + 1 + 1) ?w2"
    using assms(1) s2 by (subst retry_from.simps) simp
  have "\<not> http_fails (server ?w2 (length (sent ?w2)))"
    using assms(4) by (simp add: time_Sleep_def print_def)
  then have s3: "sendToVictoriaLogs v data ?w2 = (None, ?w2\<lparr>sent := sent ?w2 @ [data]\<rparr>)"
    using sendToVictoriaLogs_ok by blast
  have r3: "retry_from v data (0 + 1 + 1) ?w2 = ?w2\<lparr>sent := sent ?w2 @ [data]\<rparr>"
    using assms(1) s3 by (subst retry_from.simps) simp
  show ?thesis
    unfolding r1 r2 r3 by (simp add: time_Sleep_def print_def)
qed

lemma sendBatch_all_fail:
  assumes "batch \<noteq> []" and "\<forall>k. http_fails (server w k)"
  shows "sent (sendBatch js v batch w) =
           sent w @ replicate (nat (MaxRetries (config v))) (ndjson js (heap w) batch)
       \<and> slept (sendBatch js v batch w) = slept w @ map seconds [1..MaxRetries (config v)]
       \<and> buffer (sendBatch js v batch w) = buffer w"
proof -
  obtain out where sb: "sendBatch js v batch w =
      retry_from v (ndjson js (heap w) batch) 0 (w\<lparr>stdout := stdout w @ PrintBatch batch # out\<rparr>)"
    using sendBatch_nonempty[OF assms(1)] by blast
  let ?w0 = "w\<lparr>stdout := stdout w @ PrintBatch batch # out\<rparr>"
  have "\<forall>k. http_fails (server ?w0 k)" using assms(2) by simp
  from retry_from_all_fail[OF this, of v "ndjson js (heap w) batch" 0]
  show ?thesis unfolding sb by simp
qed

text \<open>
  Claim C1, as the code has it. For a batch that is not empty: when every exchange fails,
  \<^verbatim>\<open>sendBatch\<close> makes \<^verbatim>\<open>MaxRetries\<close> attempts in all (the loop counts attempts, the first
  one included), each with the same payload, sleeps \<open>n\<close> seconds after the \<open>n\<close>-th failure,
  and returns with the buffer as it was: the batch is gone and its caller gets no error.
  When the first two exchanges fail and the third succeeds, and \<^verbatim>\<open>MaxRetries\<close> is at least
  3, there are three attempts and the sleeps are 1s and 2s. The 64-bit product
  \<^verbatim>\<open>Duration(n) * Second\<close> is \<open>n\<close> seconds for every \<open>n\<close> up to 9223372036.
\<close>

theorem sendBatch_retry_schedule:
  assumes "batch \<noteq> []"
  shows "((\<forall>k. http_fails (server w k)) \<longrightarrow>
            sent (sendBatch js v batch w) =
              sent w @ replicate (nat (MaxRetries (config v))) (ndjson js (heap w) batch)
          \<and> slept (sendBatch js v batch w) = slept w @ map seconds [1..MaxRetries (config v)]
          \<and> buffer (sendBatch js v batch w) = buffer w)
       \<and> (3 \<le> MaxRetries (config v)
            \<and> http_fails (server w (length (sent w)))
            \<and> http_fails (server w (length (sent w) + 1))
            \<and> \<not> http_fails (server w (length (sent w) + 2)) \<longrightarrow>
            length (sent (sendBatch js v batch w)) = length (sent w) + 3
          \<and> slept (sendBatch js v batch w) = slept w @ [1000000000, 2000000000])
       \<and> (\<forall>n. 1 \<le> n \<and> n \<le> 9223372036 \<longrightarrow> seconds n = n * 1000000000)"
proof -
  obtain out where sb: "sendBatch js v batch w =
      retry_from v (ndjson js (heap w) batch) 0 (w\<lparr>stdout := stdout w @ PrintBatch batch # out\<rparr>)"
    using sendBatch_nonempty[OF assms] by blast
  let ?w0 = "w\<lparr>stdout := stdout w @ PrintBatch batch # out\<rparr>"
  have a: "(\<forall>k. http_fails (server w k)) \<longrightarrow>
            sent (sendBatch js v batch w) =
              sent w @ replicate (nat (MaxRetries (config v))) (ndjson js (heap w) batch)
          \<and> slept (sendBatch js v batch w) = slept w @ map seconds [1..MaxRetries (config v)]
          \<and> buffer (sendBatch js v batch w) = buffer w"
  proof
    assume "\<forall>k. http_fails (server w k)"
    then have "\<forall>k. http_fails (server ?w0 k)" by simp
    from retry_from_all_fail[OF this, of v "ndjson js (heap w) batch" 0]
    show "sent (sendBatch js v batch w) =
              sent w @ replicate (nat (MaxRetries (config v))) (ndjson js (heap w) batch)
          \<and> slept (sendBatch js v batch w) = slept w @ map seconds [1..MaxRetries (config v)]
          \<and> buffer (sendBatch js v batch w) = buffer w"
      unfolding sb by simp
  qed
  have b: "3 \<le> MaxRetries (config v)
            \<and> http_fails (server w (length (sent w)))
            \<and> http_fails (server w (length (sent w) + 1))
            \<and> \<not> http_fails (server w (length (sent w) + 2)) \<longrightarrow>
            length (sent (sendBatch js v batch w)) = length (sent w) + 3
          \<and> slept (sendBatch js v batch w) = slept w @ [1000000000, 2000000000]"
  proof
    assume h: "3 \<le> MaxRetries (config v)
            \<and> http_fails (server w (length (sent w)))
            \<and> http_fails (server w (length (sent w) + 1))
            \<and> \<not> http_fails (server w (length (sent w) + 2))"
    have "sent (retry_from v (ndjson js (heap w) batch) 0 ?w0) = sent ?w0 @ [ndjson js (heap w) batch, ndjson js (heap w) batch, ndjson js (heap w) batch]
       \<and> slept (retry_from v (ndjson js (heap w) batch) 0 ?w0) = slept ?w0 @ [seconds 1, seconds 2]
       \<and> buffer (retry_from v (ndjson js (heap w) batch) 0 ?w0) = buffer ?w0"
      using h by (intro retry_from_two_fail) simp_all
    moreover have "seconds 1 = 1000000000" "seconds 2 = 2000000000"
      using seconds_exact[of 1] seconds_exact[of 2] by simp_all
    ultimately show "length (sent (sendBatch js v batch w)) = length (sent w) + 3
          \<and> slept (sendBatch js v batch w) = slept w @ [1000000000, 2000000000]"
      unfolding sb by simp
  qed
  have c: "\<forall>n. 1 \<le> n \<and> n \<le> 9223372036 \<longrightarrow> seconds n = n * 1000000000"
    using seconds_exact by simp
  from a b c show ?thesis by blast
qed

lemma down_fails: "http_fails (down k)"
  by (simp add: down_def http_fails_def)

text \<open>
  With \<^verbatim>\<open>MaxRetries = 3\<close> and a server that never answers, a batch of one entry is tried three
  times, not \<^verbatim>\<open>MaxRetries + 1\<close> times.
\<close>

theorem sendBatch_attempts_counterexample:
  "\<not> length (sent (sendBatch js_demo sync_logger [zero_entry] (world0 down)))
       = nat (MaxRetries (config sync_logger)) + 1"
proof -
  have "\<forall>k. http_fails (server (world0 down) k)"
    by (simp add: world0_def down_fails)
  then have "sent (sendBatch js_demo sync_logger [zero_entry] (world0 down)) =
      sent (world0 down) @ replicate (nat (MaxRetries (config sync_logger)))
        (ndjson js_demo (heap (world0 down)) [zero_entry])"
    using sendBatch_all_fail[of "[zero_entry]" "world0 down" js_demo sync_logger] by simp
  then show ?thesis
    by (simp add: world0_def)
qed

theorem sendBatch_retry_schedule_witness:
  "[zero_entry] \<noteq> []
   \<and> (\<forall>k. http_fails (server (world0 down) k))
   \<and> sent (sendBatch js_demo sync_logger [zero_entry] (world0 down)) = [[CHR 0x0A], [CHR 0x0A], [CHR 0x0A]]
   \<and> slept (sendBatch js_demo sync_logger [zero_entry] (world0 down)) = [1000000000, 2000000000, 3000000000]
   \<and> 3 \<le> MaxRetries (config sync_logger)
   \<and> http_fails (server (world0 flaky) 0) \<and> http_fails (server (world0 flaky) 1)
   \<and> \<not> http_fails (server (world0 flaky) 2)
   \<and> length (sent (sendBatch js_demo sync_logger [zero_entry] (world0 flaky))) = 3
   \<and> slept (sendBatch js_demo sync_logger [zero_entry] (world0 flaky)) = [1000000000, 2000000000]
   \<and> seconds 3 = 3000000000"
proof -
  have ne: "[zero_entry] \<noteq> []" by simp
  note T1 = sendBatch_retry_schedule[OF ne, of "world0 down" js_demo sync_logger]
  note T2 = sendBatch_retry_schedule[OF ne, of "world0 flaky" js_demo sync_logger]
  have d: "\<forall>k. http_fails (server (world0 down) k)"
    by (simp add: world0_def down_def http_fails_def)
  have m: "MaxRetries (config sync_logger) = 3"
    by (simp add: sync_logger_def demo_config_def)
  have f: "http_fails (server (world0 flaky) 0)" "http_fails (server (world0 flaky) 1)"
    "\<not> http_fails (server (world0 flaky) 2)"
    by (simp_all add: world0_def flaky_def http_fails_def)
  have e: "sent (world0 down) = []" "slept (world0 down) = []" "sent (world0 flaky) = []" "slept (world0 flaky) = []"
    by (simp_all add: world0_def)
  have p: "ndjson js_demo (heap (world0 down)) [zero_entry] = [CHR 0x0A]"
    by (simp add: js_demo_def vlEntry_of_def zero_entry_def)
  have u: "[1..(3::int)] = [1, 2, 3]"
    by (simp add: upto_rec1)
  have s: "seconds 1 = 1000000000" "seconds 2 = 2000000000" "seconds 3 = 3000000000"
    using T1 by simp_all
  have A: "sent (sendBatch js_demo sync_logger [zero_entry] (world0 down)) = [[CHR 0x0A], [CHR 0x0A], [CHR 0x0A]]
      \<and> slept (sendBatch js_demo sync_logger [zero_entry] (world0 down)) = [1000000000, 2000000000, 3000000000]"
    using T1[THEN conjunct1, THEN mp, OF d] unfolding m e p u
    by (simp add: s numeral_3_eq_3)
  have h: "3 \<le> MaxRetries (config sync_logger)
            \<and> http_fails (server (world0 flaky) (length (sent (world0 flaky))))
            \<and> http_fails (server (world0 flaky) (length (sent (world0 flaky)) + 1))
            \<and> \<not> http_fails (server (world0 flaky) (length (sent (world0 flaky)) + 2))"
    by (simp add: world0_def flaky_def http_fails_def sync_logger_def demo_config_def)
  have B: "length (sent (sendBatch js_demo sync_logger [zero_entry] (world0 flaky))) = 3
      \<and> slept (sendBatch js_demo sync_logger [zero_entry] (world0 flaky)) = [1000000000, 2000000000]"
    using T2[THEN conjunct2, THEN conjunct1, THEN mp, OF h] by (simp add: e)
  show ?thesis
    using ne d A m f B s by simp
qed

section \<open>Entry creation and correlation identifiers\<close>

lemma range_assign_eq:
  "range_assign src a w = w\<lparr>heap := (heap w)(a := fold (\<lambda>(k, x). AList.update k x) src (heap w a))\<rparr>"
proof (induction src arbitrary: w)
  case Nil
  show ?case by simp
next
  case (Cons kx rest)
  obtain k x where kx: "kx = (k, x)" by (cases kx)
  have "(heap w)(a := fold (\<lambda>(k, x). AList.update k x) rest (AList.update k x (heap w a)))
      = ((heap w)(a := AList.update k x (heap w a)))
          (a := fold (\<lambda>(k, x). AList.update k x) rest (AList.update k x (heap w a)))"
    by (simp only: fun_upd_upd)
  then show ?case unfolding kx by (simp add: Cons.IH fun_upd_same del: fun_upd_apply)
qed

lemma createLogEntry_frame:
  assumes "createLogEntry v info msg flds w = Inr (e, w1)"
  shows "\<exists>h. w1 = w\<lparr>heap := h\<rparr>"
proof (cases flds)
  case NilMap
  with assms have "w1 = w" by (auto simp: createLogEntry_def split: if_splits)
  then have "w1 = w\<lparr>heap := heap w\<rparr>" by simp
  then show ?thesis by blast
next
  case (MapRef a)
  with assms show ?thesis by (auto simp: createLogEntry_def range_assign_eq)
qed


lemma log_entry_frame:
  assumes "log_entry v c info msg flds w = Inr (e, w1)"
  shows "\<exists>h. w1 = w\<lparr>heap := h\<rparr>"
proof -
  from assms obtain e0 where "createLogEntry v info msg flds w = Inr (e0, w1)"
    by (auto simp: log_entry_def Let_def split: sum.splits)
  then show ?thesis by (rule createLogEntry_frame)
qed


lemma log_entry_isl:
  "isl (log_entry v c info msg flds w) = isl (createLogEntry v info msg flds w)"
  by (auto simp: log_entry_def Let_def split: sum.splits)

lemma log_entry_TraceID:
  assumes "log_entry v c info msg flds w = Inr (e, w1)"
  shows "TraceID e = (case map_of c (IStr ''trace_id'') of Some (IStr s) \<Rightarrow> s | _ \<Rightarrow> [])"
  using assms
  by (auto simp: log_entry_def createLogEntry_def Let_def ctx_Value_def
      split: mapref.splits if_splits iface.splits option.splits)

lemma log_entry_UserID:
  assumes "log_entry v c info msg flds w = Inr (e, w1)"
  shows "UserID e = (case map_of c (IStr ''user_id'') of Some (IStr s) \<Rightarrow> s | _ \<Rightarrow> [])"
  using assms
  by (auto simp: log_entry_def createLogEntry_def Let_def ctx_Value_def
      split: mapref.splits if_splits iface.splits option.splits)

lemma log_nil_fields:
  "deref w (contextFields v) \<noteq> [] \<Longrightarrow> log js v c info msg NilMap w = Inl AssignNilMap"
  by (simp add: log_def log_entry_def createLogEntry_def)

lemma demo_root_eq:
  "NewVictoriaLogsLogger (Some demo_config) (world0 up) = Inr (demo_root, demo_world)"
  by (simp add: demo_root_def demo_world_def NewVictoriaLogsLogger_def demo_config_def
      startAsyncProcessing_def NewLoggerEntryBatch_def make_map_def Let_def)

lemma demo_root_simps:
  "config demo_root = demo_config" "contextFields demo_root = MapRef 0" "wg demo_root = 1"
  "serviceName demo_root = ''demo-api''"
  by (simp_all add: demo_root_def NewVictoriaLogsLogger_def demo_config_def world0_def
      startAsyncProcessing_def NewLoggerEntryBatch_def make_map_def Let_def)

lemma demo_world_simps:
  "heap demo_world = (\<lambda>a. [])" "next_ref demo_world = 1"
  "buffer demo_world = \<lparr>cap = 500, items = [], closed = False\<rparr>"
  "batchChan demo_world = \<lparr>cap = 500, items = [], closed = False\<rparr>"
  "cancelled demo_world = False" "worker demo_world = Some []" "server demo_world = up"
  "sent demo_world = []" "slept demo_world = []" "stdout demo_world = []" "now demo_world = 0"
  by (simp_all add: demo_world_def NewVictoriaLogsLogger_def demo_config_def world0_def
      startAsyncProcessing_def NewLoggerEntryBatch_def make_map_def Let_def fun_eq_iff)

lemma readme_userLogger_facts:
  "\<not> isl readme_userLogger"
  "deref (snd (projr readme_userLogger)) (contextFields (fst (projr readme_userLogger)))
     = [(''module'', IStr ''user-service'')]"
  by (simp_all add: readme_userLogger_def NewVictoriaLogsLogger_def demo_config_def world0_def
      make_map_def startAsyncProcessing_def NewLoggerEntryBatch_def Let_def new_map_def
      WithFields_def WithService_def deref_def)

text \<open>
  Claim C10 fails on the code. The README's own example,
  \<^verbatim>\<open>userLogger.Info(ctx, "User operation", nil)\<close> on a logger derived with
  \<^verbatim>\<open>WithFields\<close>, panics: \<^verbatim>\<open>createLogEntry\<close> writes the context field into the nil map
  that the caller passed.
\<close>

theorem readme_nil_fields_panics:
  "\<not> isl readme_userLogger
   \<and> Info js_demo (fst (projr readme_userLogger)) [] ''User operation'' NilMap
        (snd (projr readme_userLogger)) = Inl AssignNilMap"
  using readme_userLogger_facts
  by (simp add: Info_def log_nil_fields)

text \<open>
  Claim C4 fails on the code. After \<^verbatim>\<open>Info\<close> with a map of the caller, the buffered entry's
  \<^verbatim>\<open>Fields\<close> is that very map, and an assignment the caller makes afterwards shows in the
  buffered entry.
\<close>

theorem buffered_entry_aliases_caller_map:
  "\<not> isl caller_logs
   \<and> map Fields (items (buffer (snd (projr caller_logs)))) = [fst (projr caller_logs)]
   \<and> map (deref (snd (projr caller_logs)) \<circ> Fields) (items (buffer (snd (projr caller_logs))))
       = [[(''action'', IStr ''get_user'')]]
   \<and> \<not> isl (map_assign (fst (projr caller_logs)) ''action'' (IStr ''changed'') (snd (projr caller_logs)))
   \<and> map (deref (projr (map_assign (fst (projr caller_logs)) ''action'' (IStr ''changed'')
                          (snd (projr caller_logs)))) \<circ> Fields)
         (items (buffer (projr (map_assign (fst (projr caller_logs)) ''action'' (IStr ''changed'')
                          (snd (projr caller_logs))))))
       = [[(''action'', IStr ''changed'')]]"
  by (simp add: caller_logs_def NewVictoriaLogsLogger_def demo_config_def world0_def make_map_def
      startAsyncProcessing_def NewLoggerEntryBatch_def Let_def new_map_def Info_def log_def log_entry_def
      createLogEntry_def ctx_Value_def try_send_def map_assign_def deref_def)

text \<open>
  Claim C9. Whenever a logging call gets its entry, the entry's \<^verbatim>\<open>TraceID\<close> is the string
  the context holds under \<^verbatim>\<open>"trace_id"\<close>, and is empty when the context holds nothing or
  something that is not a string there; the same for \<^verbatim>\<open>UserID\<close> and \<^verbatim>\<open>"user_id"\<close>. No
  other context makes the call fail. That entry is the one the call queues (asynchronous
  mode, room in the open buffer) or sends (synchronous mode).
\<close>

theorem log_correlation_ids:
  assumes "log_entry v c info msg flds w = Inr (e, w1)"
  shows "(\<forall>tid. map_of c (IStr ''trace_id'') = Some (IStr tid) \<longrightarrow> TraceID e = tid)
       \<and> ((\<forall>tid. map_of c (IStr ''trace_id'') \<noteq> Some (IStr tid)) \<longrightarrow> TraceID e = [])
       \<and> (\<forall>uid. map_of c (IStr ''user_id'') = Some (IStr uid) \<longrightarrow> UserID e = uid)
       \<and> ((\<forall>uid. map_of c (IStr ''user_id'') \<noteq> Some (IStr uid)) \<longrightarrow> UserID e = [])
       \<and> (\<forall>c'. \<not> isl (log_entry v c' info msg flds w))
       \<and> (Async (config v) \<and> \<not> closed (buffer w) \<and> length (items (buffer w)) < cap (buffer w) \<longrightarrow>
            (\<exists>w'. log js v c info msg flds w = Inr w' \<and> items (buffer w') = items (buffer w) @ [e]))
       \<and> (\<not> Async (config v) \<longrightarrow> log js v c info msg flds w = Inr (sendBatch js v [e] w1))"
proof -
  have t: "TraceID e = (case map_of c (IStr ''trace_id'') of Some (IStr s) \<Rightarrow> s | _ \<Rightarrow> [])"
    using assms by (rule log_entry_TraceID)
  have u: "UserID e = (case map_of c (IStr ''user_id'') of Some (IStr s) \<Rightarrow> s | _ \<Rightarrow> [])"
    using assms by (rule log_entry_UserID)
  have a: "\<forall>tid. map_of c (IStr ''trace_id'') = Some (IStr tid) \<longrightarrow> TraceID e = tid"
    using t by simp
  have b: "(\<forall>tid. map_of c (IStr ''trace_id'') \<noteq> Some (IStr tid)) \<longrightarrow> TraceID e = []"
    using t by (auto split: option.splits iface.splits)
  have a': "\<forall>uid. map_of c (IStr ''user_id'') = Some (IStr uid) \<longrightarrow> UserID e = uid"
    using u by simp
  have b': "(\<forall>uid. map_of c (IStr ''user_id'') \<noteq> Some (IStr uid)) \<longrightarrow> UserID e = []"
    using u by (auto split: option.splits iface.splits)
  have "\<not> isl (log_entry v c info msg flds w)"
    using assms by simp
  then have d: "\<forall>c'. \<not> isl (log_entry v c' info msg flds w)"
    by (simp add: log_entry_isl)
  obtain h where w1: "w1 = w\<lparr>heap := h\<rparr>"
    using log_entry_frame[OF assms] by blast
  have f: "Async (config v) \<and> \<not> closed (buffer w) \<and> length (items (buffer w)) < cap (buffer w) \<longrightarrow>
            (\<exists>w'. log js v c info msg flds w = Inr w' \<and> items (buffer w') = items (buffer w) @ [e])"
    using assms by (simp add: log_def try_send_def w1)
  have g: "\<not> Async (config v) \<longrightarrow> log js v c info msg flds w = Inr (sendBatch js v [e] w1)"
    using assms by (simp add: log_def)
  from a b a' b' d f g show ?thesis by blast
qed

theorem log_correlation_ids_witness:
  "\<not> isl (log_entry demo_root trace_ctx INFO ''hello'' NilMap demo_world)
   \<and> map_of trace_ctx (IStr ''trace_id'') = Some (IStr ''trace_abc123'')
   \<and> TraceID (fst (projr (log_entry demo_root trace_ctx INFO ''hello'' NilMap demo_world))) = ''trace_abc123''
   \<and> UserID (fst (projr (log_entry demo_root trace_ctx INFO ''hello'' NilMap demo_world))) = []
   \<and> map TraceID (items (buffer (projr (log js_demo demo_root trace_ctx INFO ''hello'' NilMap demo_world))))
       = [''trace_abc123'']
   \<and> \<not> isl (log_entry sync_logger [(IStr ''trace_id'', IInt 7)] INFO ''hello'' NilMap (world0 up))
   \<and> TraceID (fst (projr (log_entry sync_logger [(IStr ''trace_id'', IInt 7)] INFO ''hello'' NilMap (world0 up)))) = []
   \<and> \<not> isl (log js_demo sync_logger [(IStr ''trace_id'', IInt 7)] INFO ''hello'' NilMap (world0 up))"
proof -
  let ?r = "log_entry demo_root trace_ctx INFO ''hello'' NilMap demo_world"
  let ?s = "log_entry sync_logger [(IStr ''trace_id'', IInt 7)] INFO ''hello'' NilMap (world0 up)"
  have nr: "\<not> isl ?r"
    by (simp add: log_entry_isl createLogEntry_def demo_root_simps demo_world_simps deref_def)
  then have r: "?r = Inr (fst (projr ?r), snd (projr ?r))"
    by (cases ?r) simp_all
  have ns: "\<not> isl ?s"
    by (simp add: log_entry_isl createLogEntry_def sync_logger_def world0_def deref_def)
  then have s: "?s = Inr (fst (projr ?s), snd (projr ?s))"
    by (cases ?s) simp_all
  note R = log_correlation_ids[OF r, of js_demo]
  note S = log_correlation_ids[OF s, of js_demo]
  have m: "map_of trace_ctx (IStr ''trace_id'') = Some (IStr ''trace_abc123'')"
    by (simp add: trace_ctx_def)
  have t: "TraceID (fst (projr ?r)) = ''trace_abc123''"
    using R m by blast
  have "\<forall>uid. map_of trace_ctx (IStr ''user_id'') \<noteq> Some (IStr uid)"
    by (simp add: trace_ctx_def)
  then have u: "UserID (fst (projr ?r)) = []"
    using R by blast
  have "Async (config demo_root) \<and> \<not> closed (buffer demo_world)
      \<and> length (items (buffer demo_world)) < cap (buffer demo_world)"
    by (simp add: demo_root_simps demo_world_simps demo_config_def)
  then obtain w' where w': "log js_demo demo_root trace_ctx INFO ''hello'' NilMap demo_world = Inr w'"
      "items (buffer w') = items (buffer demo_world) @ [fst (projr ?r)]"
    using R by blast
  have q: "map TraceID (items (buffer (projr (log js_demo demo_root trace_ctx INFO ''hello'' NilMap demo_world))))
       = [''trace_abc123'']"
    using w' t by (simp add: demo_world_simps)
  have "\<forall>tid. map_of [(IStr ''trace_id'', IInt 7)] (IStr ''trace_id'') \<noteq> Some (IStr tid)"
    by simp
  then have t2: "TraceID (fst (projr ?s)) = []"
    using S by blast
  have "\<not> Async (config sync_logger)"
    by (simp add: sync_logger_def)
  then have "log js_demo sync_logger [(IStr ''trace_id'', IInt 7)] INFO ''hello'' NilMap (world0 up)
      = Inr (sendBatch js_demo sync_logger [fst (projr ?s)] (snd (projr ?s)))"
    using S by blast
  then have l: "\<not> isl (log js_demo sync_logger [(IStr ''trace_id'', IInt 7)] INFO ''hello'' NilMap (world0 up))"
    by simp
  from nr m t u q ns t2 l show ?thesis by blast
qed

lemma log_entry_scalars:
  assumes "log_entry v c info msg flds w = Inr (e, w1)"
  shows "Fields e = flds \<and> Level e = info \<and> Message e = msg \<and> Timestamp e = now w
       \<and> Service e = serviceName v"
  using assms
  by (auto simp: log_entry_def createLogEntry_def Let_def split: mapref.splits if_splits iface.splits)

text \<open>
  Claim C4, as the code has it. The entry that a per-level call creates takes its level,
  message, time and service name by value, and takes the caller's map itself as its
  \<^verbatim>\<open>Fields\<close>. Once the entry is in the buffer, an assignment that the caller makes to its
  map is an assignment to the buffered entry's fields.
\<close>

theorem buffered_entry_keeps_caller_map:
  assumes "log_entry v c info msg flds w = Inr (e, w1)"
  shows "Fields e = flds \<and> Level e = info \<and> Message e = msg \<and> Timestamp e = now w
       \<and> Service e = serviceName v
       \<and> (Async (config v) \<and> \<not> closed (buffer w) \<and> length (items (buffer w)) < cap (buffer w) \<longrightarrow>
            (\<exists>w'. log js v c info msg flds w = Inr w' \<and> items (buffer w') = items (buffer w) @ [e]
               \<and> (\<forall>a k x. flds = MapRef a \<longrightarrow>
                     (\<exists>w''. map_assign flds k x w' = Inr w'' \<and> buffer w'' = buffer w'
                        \<and> deref w'' (Fields e) = AList.update k x (deref w' (Fields e))))))"
proof -
  note s = log_entry_scalars[OF assms]
  obtain h where w1: "w1 = w\<lparr>heap := h\<rparr>"
    using log_entry_frame[OF assms] by blast
  have "Async (config v) \<and> \<not> closed (buffer w) \<and> length (items (buffer w)) < cap (buffer w) \<longrightarrow>
            (\<exists>w'. log js v c info msg flds w = Inr w' \<and> items (buffer w') = items (buffer w) @ [e]
               \<and> (\<forall>a k x. flds = MapRef a \<longrightarrow>
                     (\<exists>w''. map_assign flds k x w' = Inr w'' \<and> buffer w'' = buffer w'
                        \<and> deref w'' (Fields e) = AList.update k x (deref w' (Fields e)))))"
  proof
    assume a: "Async (config v) \<and> \<not> closed (buffer w) \<and> length (items (buffer w)) < cap (buffer w)"
    let ?w' = "w1\<lparr>buffer := (buffer w1)\<lparr>items := items (buffer w1) @ [e]\<rparr>\<rparr>"
    have l: "log js v c info msg flds w = Inr ?w'"
      using assms a by (simp add: log_def try_send_def w1)
    have i: "items (buffer ?w') = items (buffer w) @ [e]" by (simp add: w1)
    have m: "\<forall>a k x. flds = MapRef a \<longrightarrow>
                     (\<exists>w''. map_assign flds k x ?w' = Inr w'' \<and> buffer w'' = buffer ?w'
                        \<and> deref w'' (Fields e) = AList.update k x (deref ?w' (Fields e)))"
      using s by (simp add: map_assign_def deref_def)
    from l i m show "\<exists>w'. log js v c info msg flds w = Inr w' \<and> items (buffer w') = items (buffer w) @ [e]
               \<and> (\<forall>a k x. flds = MapRef a \<longrightarrow>
                     (\<exists>w''. map_assign flds k x w' = Inr w'' \<and> buffer w'' = buffer w'
                        \<and> deref w'' (Fields e) = AList.update k x (deref w' (Fields e))))"
      by blast
  qed
  with s show ?thesis by blast
qed

lemma caller_world_simps:
  "heap caller_world 1 = [(''action'', IStr ''get_user'')]" "heap caller_world 0 = []"
  "heap caller_world (Suc 0) = [(''action'', IStr ''get_user'')]"
  "buffer caller_world = \<lparr>cap = 500, items = [], closed = False\<rparr>"
  by (simp_all add: caller_world_def new_map_def demo_world_simps)

theorem buffered_entry_keeps_caller_map_witness:
  "\<not> isl (log_entry demo_root [] INFO ''Processing request'' (MapRef 1) caller_world)
   \<and> Async (config demo_root) \<and> \<not> closed (buffer caller_world)
   \<and> length (items (buffer caller_world)) < cap (buffer caller_world)
   \<and> \<not> isl (log js_demo demo_root [] INFO ''Processing request'' (MapRef 1) caller_world)
   \<and> map Fields (items (buffer (projr (log js_demo demo_root [] INFO ''Processing request'' (MapRef 1) caller_world))))
       = [MapRef 1]
   \<and> \<not> isl (map_assign (MapRef 1) ''action'' (IStr ''changed'')
               (projr (log js_demo demo_root [] INFO ''Processing request'' (MapRef 1) caller_world)))
   \<and> map (deref (projr (map_assign (MapRef 1) ''action'' (IStr ''changed'')
               (projr (log js_demo demo_root [] INFO ''Processing request'' (MapRef 1) caller_world)))) \<circ> Fields)
         (items (buffer (projr (map_assign (MapRef 1) ''action'' (IStr ''changed'')
               (projr (log js_demo demo_root [] INFO ''Processing request'' (MapRef 1) caller_world))))))
       = [[(''action'', IStr ''changed'')]]"
proof -
  let ?r = "log_entry demo_root [] INFO ''Processing request'' (MapRef 1) caller_world"
  have nr: "\<not> isl ?r"
    by (simp add: log_entry_isl createLogEntry_def)
  then have r: "?r = Inr (fst (projr ?r), snd (projr ?r))" by (cases ?r) simp_all
  note T = buffered_entry_keeps_caller_map[OF r, of js_demo]
  have f: "Fields (fst (projr ?r)) = MapRef 1" using T by blast
  have h: "Async (config demo_root) \<and> \<not> closed (buffer caller_world)
      \<and> length (items (buffer caller_world)) < cap (buffer caller_world)"
    by (simp add: demo_root_simps demo_config_def caller_world_simps)
  obtain w' where l: "log js_demo demo_root [] INFO ''Processing request'' (MapRef 1) caller_world = Inr w'"
    and i: "items (buffer w') = items (buffer caller_world) @ [fst (projr ?r)]"
    and m: "\<forall>a k x. MapRef 1 = MapRef a \<longrightarrow>
                     (\<exists>w''. map_assign (MapRef 1) k x w' = Inr w'' \<and> buffer w'' = buffer w'
                        \<and> deref w'' (Fields (fst (projr ?r))) = AList.update k x (deref w' (Fields (fst (projr ?r)))))"
    using T h by blast
  obtain w'' where a: "map_assign (MapRef 1) ''action'' (IStr ''changed'') w' = Inr w''"
    and b: "buffer w'' = buffer w'"
    and d: "deref w'' (Fields (fst (projr ?r))) =
        AList.update ''action'' (IStr ''changed'') (deref w' (Fields (fst (projr ?r))))"
    using m by blast
  have hw': "heap w' (Suc 0) = [(''action'', IStr ''get_user'')]"
    using l by (auto simp: log_def log_entry_def createLogEntry_def deref_def demo_root_simps
        caller_world_simps demo_config_def try_send_def ctx_Value_def Let_def)
  have d': "deref w'' (Fields (fst (projr ?r))) = [(''action'', IStr ''changed'')]"
  proof -
    have "deref w' (Fields (fst (projr ?r))) = [(''action'', IStr ''get_user'')]"
      unfolding f by (simp add: deref_def hw')
    then show ?thesis unfolding d by simp
  qed
  show ?thesis
    using nr h l i a b d' f by (simp add: caller_world_simps)
qed

section \<open>What a delivery changes\<close>

lemma retry_from_frame:
  "\<exists>n sl out. retry_from v data i w =
      w\<lparr>sent := sent w @ replicate n data, slept := slept w @ sl, stdout := stdout w @ out\<rparr>
      \<and> (i < MaxRetries (config v) \<longrightarrow> 0 < n)"
proof (induction v data i w rule: retry_from.induct)
  case (1 v data i w)
  show ?case
  proof (cases "i < MaxRetries (config v)")
    case False
    then have "retry_from v data i w =
        w\<lparr>sent := sent w @ replicate 0 data, slept := slept w @ [], stdout := stdout w @ []\<rparr>"
      by (simp add: retry_from.simps)
    with False show ?thesis by blast
  next
    case True
    show ?thesis
    proof (cases "http_fails (server w (length (sent w)))")
      case False
      then have "sendToVictoriaLogs v data w = (None, w\<lparr>sent := sent w @ [data]\<rparr>)"
        by (rule sendToVictoriaLogs_ok)
      then have "retry_from v data i w =
          w\<lparr>sent := sent w @ replicate 1 data, slept := slept w @ [], stdout := stdout w @ []\<rparr>"
        using True by (subst retry_from.simps) simp
      then show ?thesis by (metis zero_less_one)
    next
      case f: True
      then obtain err where e: "sendToVictoriaLogs v data w = (Some err, w\<lparr>sent := sent w @ [data]\<rparr>)"
        using sendToVictoriaLogs_fails by blast
      let ?w2 = "time_Sleep (seconds (i + 1)) (print (PrintErr err) (w\<lparr>sent := sent w @ [data]\<rparr>))"
      have unf: "retry_from v data i w = retry_from v data (i + 1) ?w2"
        using True e by (subst retry_from.simps) simp
      from "1.IH"[OF True e[symmetric] refl]
      obtain n sl out where r: "retry_from v data (i + 1) ?w2 =
          ?w2\<lparr>sent := sent ?w2 @ replicate n data, slept := slept ?w2 @ sl, stdout := stdout ?w2 @ out\<rparr>"
        by blast
      have "retry_from v data i w =
          w\<lparr>sent := sent w @ replicate (Suc n) data, slept := slept w @ (seconds (i + 1) # sl),
            stdout := stdout w @ (PrintErr err # out)\<rparr>"
        unfolding unf r by (simp add: time_Sleep_def print_def)
      then show ?thesis by (metis zero_less_Suc)
    qed
  qed
qed

lemma retry_from_ok:
  assumes "i < MaxRetries (config v)" and "\<not> http_fails (server w (length (sent w)))"
  shows "retry_from v data i w = w\<lparr>sent := sent w @ [data]\<rparr>"
  using assms sendToVictoriaLogs_ok[OF assms(2), of v data]
  by (subst retry_from.simps) simp

lemma sendBatch_empty:
  "sendBatch js v [] w = w\<lparr>stdout := stdout w @ [PrintBatch []]\<rparr>"
  by (simp add: sendBatch_def print_def)

lemma sendBatch_frame:
  "\<exists>s sl out. sendBatch js v batch w =
      w\<lparr>sent := sent w @ s, slept := slept w @ sl, stdout := stdout w @ PrintBatch batch # out\<rparr>"
proof (cases "batch = []")
  case True
  have "sendBatch js v [] w = w\<lparr>sent := sent w @ [], slept := slept w @ [],
      stdout := stdout w @ PrintBatch [] # []\<rparr>"
    by (simp add: sendBatch_empty)
  with True show ?thesis by blast
next
  case False
  then obtain out where sb: "sendBatch js v batch w =
      retry_from v (ndjson js (heap w) batch) 0 (w\<lparr>stdout := stdout w @ PrintBatch batch # out\<rparr>)"
    using sendBatch_nonempty by blast
  let ?w0 = "w\<lparr>stdout := stdout w @ PrintBatch batch # out\<rparr>"
  obtain n sl out' where "retry_from v (ndjson js (heap w) batch) 0 ?w0 =
      ?w0\<lparr>sent := sent ?w0 @ replicate n (ndjson js (heap w) batch), slept := slept ?w0 @ sl,
          stdout := stdout ?w0 @ out'\<rparr>"
    using retry_from_frame by blast
  then have "sendBatch js v batch w =
      w\<lparr>sent := sent w @ replicate n (ndjson js (heap w) batch), slept := slept w @ sl,
        stdout := stdout w @ PrintBatch batch # (out @ out')\<rparr>"
    unfolding sb by simp
  then show ?thesis by blast
qed

lemma sendBatch_first_attempt:
  assumes "batch \<noteq> []" and "0 < MaxRetries (config v)"
  shows "\<exists>rest. sent (sendBatch js v batch w) = sent w @ ndjson js (heap w) batch # rest"
proof -
  obtain out where sb: "sendBatch js v batch w =
      retry_from v (ndjson js (heap w) batch) 0 (w\<lparr>stdout := stdout w @ PrintBatch batch # out\<rparr>)"
    using sendBatch_nonempty[OF assms(1)] by blast
  let ?w0 = "w\<lparr>stdout := stdout w @ PrintBatch batch # out\<rparr>"
  obtain n sl out' where r: "retry_from v (ndjson js (heap w) batch) 0 ?w0 =
      ?w0\<lparr>sent := sent ?w0 @ replicate n (ndjson js (heap w) batch), slept := slept ?w0 @ sl,
          stdout := stdout ?w0 @ out'\<rparr>" and n: "0 < n"
    using retry_from_frame[of v "ndjson js (heap w) batch" 0 ?w0] assms(2) by blast
  from n obtain m where "n = Suc m" by (cases n) simp_all
  then have "sent (sendBatch js v batch w) =
      sent w @ ndjson js (heap w) batch # replicate m (ndjson js (heap w) batch)"
    unfolding sb r by simp
  then show ?thesis by blast
qed

lemma sendBatch_ok:
  assumes "batch \<noteq> []" and "0 < MaxRetries (config v)"
    and "\<not> http_fails (server w (length (sent w)))"
  shows "\<exists>out. sendBatch js v batch w =
      w\<lparr>sent := sent w @ [ndjson js (heap w) batch], stdout := stdout w @ PrintBatch batch # out\<rparr>"
proof -
  obtain out where sb: "sendBatch js v batch w =
      retry_from v (ndjson js (heap w) batch) 0 (w\<lparr>stdout := stdout w @ PrintBatch batch # out\<rparr>)"
    using sendBatch_nonempty[OF assms(1)] by blast
  let ?w0 = "w\<lparr>stdout := stdout w @ PrintBatch batch # out\<rparr>"
  have "\<not> http_fails (server ?w0 (length (sent ?w0)))" using assms(3) by simp
  from retry_from_ok[OF assms(2) this]
  have "sendBatch js v batch w =
      w\<lparr>sent := sent w @ [ndjson js (heap w) batch], stdout := stdout w @ PrintBatch batch # out\<rparr>"
    unfolding sb by simp
  then show ?thesis by blast
qed

lemma ndjson_append:
  "ndjson js h (xs @ ys) = ndjson js h xs @ ndjson js h ys"
  by (induction xs) (auto split: option.splits)

lemma ndjson_filter:
  "ndjson js h batch =
     concat (map (\<lambda>x. the (js h (vlEntry_of x)) @ [CHR 0x0A])
                 (filter (\<lambda>x. js h (vlEntry_of x) \<noteq> None) batch))"
  by (induction batch) (auto split: option.splits)

lemma write_entries_payload:
  "fst (write_entries js batch [] w) = ndjson js (heap w) batch"
  using write_entries_eq[of js batch "[]" w] by auto

text \<open>
  Claim C8. An entry that \<^verbatim>\<open>json.Marshal\<close> rejects contributes nothing to the payload, which
  is the payload of the batch without it: one line, in order, for each entry that
  serialises. The batch is still sent: with \<^verbatim>\<open>MaxRetries\<close> positive, the first exchange
  carries that payload.
\<close>

theorem marshal_failure_skips_entry:
  assumes "js (heap w) (vlEntry_of e) = None"
  shows "fst (write_entries js (xs @ e # ys) [] w) = fst (write_entries js (xs @ ys) [] w)
       \<and> fst (write_entries js (xs @ e # ys) [] w) =
           concat (map (\<lambda>x. the (js (heap w) (vlEntry_of x)) @ [CHR 0x0A])
                       (filter (\<lambda>x. js (heap w) (vlEntry_of x) \<noteq> None) (xs @ ys)))
       \<and> (0 < MaxRetries (config v) \<longrightarrow>
            (\<exists>rest. sent (sendBatch js v (xs @ e # ys) w) =
               sent w @ fst (write_entries js (xs @ ys) [] w) # rest))"
proof -
  have p: "ndjson js (heap w) (xs @ e # ys) = ndjson js (heap w) (xs @ ys)"
    using assms by (simp add: ndjson_append)
  have a: "fst (write_entries js (xs @ e # ys) [] w) = fst (write_entries js (xs @ ys) [] w)"
    by (simp only: write_entries_payload p)
  have b: "fst (write_entries js (xs @ e # ys) [] w) =
           concat (map (\<lambda>x. the (js (heap w) (vlEntry_of x)) @ [CHR 0x0A])
                       (filter (\<lambda>x. js (heap w) (vlEntry_of x) \<noteq> None) (xs @ ys)))"
    unfolding write_entries_payload p by (rule ndjson_filter)
  have c: "0 < MaxRetries (config v) \<longrightarrow>
            (\<exists>rest. sent (sendBatch js v (xs @ e # ys) w) =
               sent w @ fst (write_entries js (xs @ ys) [] w) # rest)"
  proof
    assume m: "0 < MaxRetries (config v)"
    have "xs @ e # ys \<noteq> []" by simp
    from sendBatch_first_attempt[OF this m, of js w]
    show "\<exists>rest. sent (sendBatch js v (xs @ e # ys) w) =
               sent w @ fst (write_entries js (xs @ ys) [] w) # rest"
      by (simp only: write_entries_payload p)
  qed
  from a b c show ?thesis by blast
qed

theorem marshal_failure_skips_entry_witness:
  "js_demo (heap chan_world) (vlEntry_of bad_entry) = None
   \<and> fst (write_entries js_demo ([good_entry ''a''] @ bad_entry # [good_entry ''b'']) [] chan_world)
       = [CHR ''a'', CHR 0x0A, CHR ''b'', CHR 0x0A]
   \<and> 0 < MaxRetries (config sync_logger)
   \<and> hd (sent (sendBatch js_demo sync_logger ([good_entry ''a''] @ bad_entry # [good_entry ''b'']) chan_world))
       = [CHR ''a'', CHR 0x0A, CHR ''b'', CHR 0x0A]"
proof -
  have h: "js_demo (heap chan_world) (vlEntry_of bad_entry) = None"
    by (simp add: js_demo_def chan_world_def vlEntry_of_def bad_entry_def zero_entry_def)
  note T = marshal_failure_skips_entry[where js = js_demo and w = chan_world and e = bad_entry
      and xs = "[good_entry ''a'']" and ys = "[good_entry ''b'']" and v = sync_logger, OF h]
  have g: "fst (write_entries js_demo ([good_entry ''a''] @ [good_entry ''b'']) [] chan_world)
      = [CHR ''a'', CHR 0x0A, CHR ''b'', CHR 0x0A]"
    by (simp add: js_demo_def chan_world_def vlEntry_of_def good_entry_def zero_entry_def print_def)
  have m: "0 < MaxRetries (config sync_logger)"
    by (simp add: sync_logger_def demo_config_def)
  have s: "sent chan_world = []"
    by (simp add: chan_world_def world0_def)
  have a: "fst (write_entries js_demo ([good_entry ''a''] @ bad_entry # [good_entry ''b'']) [] chan_world)
       = [CHR ''a'', CHR 0x0A, CHR ''b'', CHR 0x0A]"
    using T g by simp
  obtain rest where "sent (sendBatch js_demo sync_logger ([good_entry ''a''] @ bad_entry # [good_entry ''b'']) chan_world)
      = sent chan_world @ fst (write_entries js_demo ([good_entry ''a''] @ [good_entry ''b'']) [] chan_world) # rest"
    using T m by blast
  then have b: "hd (sent (sendBatch js_demo sync_logger ([good_entry ''a''] @ bad_entry # [good_entry ''b'']) chan_world))
       = [CHR ''a'', CHR 0x0A, CHR ''b'', CHR 0x0A]"
    using g s by simp
  from h a m b show ?thesis by blast
qed

section \<open>The logging calls on a full buffer, and in synchronous mode\<close>


lemma offer_all_result:
  assumes "\<not> closed (buffer w)" and "length (items (buffer w)) \<le> cap (buffer w)"
  shows "offer_all entries w =
     Inr (if length (items (buffer w)) + length entries \<le> cap (buffer w) then None else Some ErrBufferFull,
          w\<lparr>buffer := (buffer w)\<lparr>items := items (buffer w) @ take (cap (buffer w) - length (items (buffer w))) entries\<rparr>\<rparr>)"
  using assms
proof (induction entries arbitrary: w)
  case Nil
  then show ?case by simp
next
  case (Cons entry rest)
  show ?case
  proof (cases "length (items (buffer w)) < cap (buffer w)")
    case False
    then show ?thesis using Cons.prems by (simp add: try_send_def)
  next
    case True
    let ?w1 = "w\<lparr>buffer := (buffer w)\<lparr>items := items (buffer w) @ [entry]\<rparr>\<rparr>"
    have c: "\<not> closed (buffer ?w1)" "length (items (buffer ?w1)) \<le> cap (buffer ?w1)"
      using Cons.prems True by simp_all
    have t: "take (cap (buffer w) - length (items (buffer w))) (entry # rest)
        = entry # take (cap (buffer w) - Suc (length (items (buffer w)))) rest"
      using True by (simp add: take_Cons')
    have "offer_all (entry # rest) w = offer_all rest ?w1"
      using True Cons.prems by (simp add: try_send_def)
    also note Cons.IH[OF c]
    finally show ?thesis using True by (simp add: t)
  qed
qed





lemma createLogEntry_server:
  "isl (createLogEntry v info msg flds (w\<lparr>server := srv\<rparr>)) = isl (createLogEntry v info msg flds w)"
  by (cases flds) (simp_all add: createLogEntry_def deref_def split: mapref.splits)

lemma log_sync_isl:
  assumes "\<not> Async (config v)"
  shows "isl (log js v c info msg flds w) = isl (createLogEntry v info msg flds w)"
  using assms by (auto simp: log_def log_entry_def Let_def split: sum.splits)

text \<open>
  Claim C3 fails on the code. In synchronous mode with a server that never answers, the
  three attempts of \<^verbatim>\<open>BatchLog\<close> fail and it returns nil all the same; \<^verbatim>\<open>Info\<close>, which
  has no result, returns normally.
\<close>

theorem sync_failure_not_reported_counterexample:
  "\<not> Async (config sync_logger)
   \<and> BatchLog js_demo sync_logger [zero_entry] (world0 down)
       = Inr (None, sendBatch js_demo sync_logger [zero_entry] (world0 down))
   \<and> length (sent (sendBatch js_demo sync_logger [zero_entry] (world0 down))) = 3
   \<and> \<not> isl (Info js_demo sync_logger [] ''m'' NilMap (world0 down))"
proof -
  have a: "\<not> Async (config sync_logger)" by (simp add: sync_logger_def)
  have "\<forall>k. http_fails (server (world0 down) k)"
    by (simp add: world0_def down_fails)
  then have "sent (sendBatch js_demo sync_logger [zero_entry] (world0 down)) =
      sent (world0 down) @ replicate (nat (MaxRetries (config sync_logger)))
        (ndjson js_demo (heap (world0 down)) [zero_entry])"
    using sendBatch_all_fail[of "[zero_entry]" "world0 down" js_demo sync_logger] by simp
  then have b: "length (sent (sendBatch js_demo sync_logger [zero_entry] (world0 down))) = 3"
    by (simp add: world0_def sync_logger_def demo_config_def)
  have c: "\<not> isl (Info js_demo sync_logger [] ''m'' NilMap (world0 down))"
    unfolding Info_def log_sync_isl[OF a]
    by (simp add: createLogEntry_def sync_logger_def world0_def deref_def)
  show ?thesis using a b c by (simp add: BatchLog_def)
qed

text \<open>
  Claim C3, as the code has it. In synchronous mode a delivery failure is not reported:
  \<^verbatim>\<open>BatchLog\<close> returns nil whatever the server does, and a per-level call, which has no
  result, returns normally exactly when its entry can be created, whatever the server does.
\<close>

theorem sync_failure_not_reported:
  assumes "\<not> Async (config v)"
  shows "(\<forall>srv. \<exists>w'. BatchLog js v entries (w\<lparr>server := srv\<rparr>) = Inr (None, w'))
       \<and> (\<forall>srv. isl (log js v c info msg flds (w\<lparr>server := srv\<rparr>))
                 = isl (createLogEntry v info msg flds w))"
  using assms by (simp add: BatchLog_def log_sync_isl createLogEntry_server)

theorem sync_failure_not_reported_witness:
  "\<not> Async (config sync_logger)
   \<and> fst (projr (BatchLog js_demo sync_logger [zero_entry] ((world0 up)\<lparr>server := down\<rparr>))) = None
   \<and> \<not> isl (BatchLog js_demo sync_logger [zero_entry] ((world0 up)\<lparr>server := down\<rparr>))
   \<and> \<not> isl (log js_demo sync_logger [] INFO ''m'' NilMap ((world0 up)\<lparr>server := down\<rparr>))"
proof -
  have a: "\<not> Async (config sync_logger)" by (simp add: sync_logger_def)
  note T = sync_failure_not_reported[OF a, of js_demo "[zero_entry]" "world0 up" "[]" INFO "''m''" NilMap]
  obtain w' where b: "BatchLog js_demo sync_logger [zero_entry] ((world0 up)\<lparr>server := down\<rparr>) = Inr (None, w')"
    using T by blast
  have "\<not> isl (createLogEntry sync_logger INFO ''m'' NilMap (world0 up))"
    by (simp add: createLogEntry_def sync_logger_def world0_def deref_def)
  then have c: "\<not> isl (log js_demo sync_logger [] INFO ''m'' NilMap ((world0 up)\<lparr>server := down\<rparr>))"
    using T by blast
  show ?thesis using a b c by simp
qed

section \<open>Derived loggers own their field maps\<close>








section \<open>Runs of the worker\<close>

lemma flushes_append: "flushes (xs @ ys) = flushes xs @ flushes ys"
  by (induction xs rule: flushes.induct) simp_all

lemma write_entries_flushes:
  "flushes (stdout (snd (write_entries js batch buff w))) = flushes (stdout w)"
  by (induction batch arbitrary: buff w) (auto simp: print_def flushes_append split: option.splits)

lemma retry_from_flushes:
  "flushes (stdout (retry_from v data i w)) = flushes (stdout w)"
proof (induction v data i w rule: retry_from.induct)
  case (1 v data i w)
  show ?case
  proof (cases "i < MaxRetries (config v)")
    case False
    then show ?thesis by (simp add: retry_from.simps)
  next
    case True
    show ?thesis
    proof (cases "sendToVictoriaLogs v data w")
      case (Pair r w1)
      have s: "stdout w1 = stdout w"
        using Pair by (auto simp: sendToVictoriaLogs_def Let_def split: http_outcome.splits if_splits)
      show ?thesis
      proof (cases r)
        case None
        then show ?thesis using True Pair s by (subst retry_from.simps) simp
      next
        case (Some err)
        have "retry_from v data i w =
            retry_from v data (i + 1) (time_Sleep (seconds (i + 1)) (print (PrintErr err) w1))"
          using True Pair Some by (subst retry_from.simps) simp
        moreover have "flushes (stdout (retry_from v data (i + 1) (time_Sleep (seconds (i + 1)) (print (PrintErr err) w1))))
            = flushes (stdout (time_Sleep (seconds (i + 1)) (print (PrintErr err) w1)))"
          using "1.IH"[OF True Pair[symmetric] Some] by simp
        ultimately show ?thesis
          by (simp add: time_Sleep_def print_def flushes_append s)
      qed
    qed
  qed
qed

lemma sendBatch_flushes:
  "flushes (stdout (sendBatch js v batch w)) = flushes (stdout w) @ [batch]"
proof (cases "batch = []")
  case True
  then show ?thesis by (simp add: sendBatch_empty flushes_append)
next
  case False
  have "flushes (stdout (snd (write_entries js batch [] (print (PrintBatch batch) w))))
      = flushes (stdout w) @ [batch]"
    by (simp add: write_entries_flushes print_def flushes_append)
  then show ?thesis
    using False
    by (cases "write_entries js batch [] (print (PrintBatch batch) w)")
       (simp add: sendBatch_def Let_def retry_from_flushes)
qed

lemma sendBatch_ok_fields:
  assumes "batch \<noteq> []" and "0 < MaxRetries (config v)"
    and "\<not> http_fails (server w (length (sent w)))"
  shows "sent (sendBatch js v batch w) = sent w @ [ndjson js (heap w) batch]"
    and "slept (sendBatch js v batch w) = slept w"
    and "heap (sendBatch js v batch w) = heap w"
    and "server (sendBatch js v batch w) = server w"
    and "buffer (sendBatch js v batch w) = buffer w"
    and "batchChan (sendBatch js v batch w) = batchChan w"
    and "worker (sendBatch js v batch w) = worker w"
    and "cancelled (sendBatch js v batch w) = cancelled w"
proof -
  obtain out where "sendBatch js v batch w =
      w\<lparr>sent := sent w @ [ndjson js (heap w) batch], stdout := stdout w @ PrintBatch batch # out\<rparr>"
    using sendBatch_ok[OF assms] by blast
  then show "sent (sendBatch js v batch w) = sent w @ [ndjson js (heap w) batch]"
    and "slept (sendBatch js v batch w) = slept w"
    and "heap (sendBatch js v batch w) = heap w"
    and "server (sendBatch js v batch w) = server w"
    and "buffer (sendBatch js v batch w) = buffer w"
    and "batchChan (sendBatch js v batch w) = batchChan w"
    and "worker (sendBatch js v batch w) = worker w"
    and "cancelled (sendBatch js v batch w) = cancelled w"
    by simp_all
qed

lemma sendBatch_keeps:
  shows "heap (sendBatch js v batch w) = heap w"
    and "server (sendBatch js v batch w) = server w"
    and "buffer (sendBatch js v batch w) = buffer w"
    and "batchChan (sendBatch js v batch w) = batchChan w"
    and "worker (sendBatch js v batch w) = worker w"
    and "cancelled (sendBatch js v batch w) = cancelled w"
    and "next_ref (sendBatch js v batch w) = next_ref w"
proof -
  obtain s sl out where "sendBatch js v batch w =
      w\<lparr>sent := sent w @ s, slept := slept w @ sl, stdout := stdout w @ PrintBatch batch # out\<rparr>"
    using sendBatch_frame by blast
  then show "heap (sendBatch js v batch w) = heap w"
    and "server (sendBatch js v batch w) = server w"
    and "buffer (sendBatch js v batch w) = buffer w"
    and "batchChan (sendBatch js v batch w) = batchChan w"
    and "worker (sendBatch js v batch w) = worker w"
    and "cancelled (sendBatch js v batch w) = cancelled w"
    and "next_ref (sendBatch js v batch w) = next_ref w"
    by simp_all
qed

lemma worker_step_Recv:
  assumes "0 \<le> BatchSize (config v)" and "items (buffer w) = e # rest"
  shows "worker_step js v Recv batch w =
     Inr (Some [], sendBatch js v (batch @ [e]) (w\<lparr>buffer := (buffer w)\<lparr>items := rest\<rparr>\<rparr>))"
  using assms by (simp add: worker_step_def chan_recv_def NewLoggerEntryBatch_def Let_def)

lemma worker_step_Recv_idle:
  assumes "items (buffer w) = []" and "\<not> closed (buffer w)"
  shows "worker_step js v Recv batch w = Inr (Some batch, w)"
  using assms by (simp add: worker_step_def chan_recv_def)

lemma worker_step_Tick_empty:
  assumes "0 \<le> BatchSize (config v)"
  shows "worker_step js v Tick [] w = Inr (Some [], w)"
  using assms by (simp add: worker_step_def NewLoggerEntryBatch_def)

lemma worker_step_Done_empty:
  "worker_step js v Done [] w = Inr (if cancelled w then None else Some [], w)"
  by (simp add: worker_step_def)

lemma sys_step_Call:
  assumes "Async (config u)" and "deref w (contextFields u) = []"
    and "\<not> closed (buffer w)" and "length (items (buffer w)) < cap (buffer w)"
    and "worker w = Some [] \<or> worker w = None"
  shows "\<exists>e w1. sys_step js v (Call u c info msg flds) w = Inr w1 \<and> same_frame w w1
      \<and> made_by e (u, c, info, msg, flds)
      \<and> items (buffer w1) = items (buffer w) @ [e] \<and> sent w1 = sent w
      \<and> flushes (stdout w1) = flushes (stdout w)"
proof -
  have "\<exists>e0. createLogEntry u info msg flds w = Inr (e0, w) \<and> made_by e0 (u, c, info, msg, flds)"
    using assms(2) by (cases flds) (simp_all add: createLogEntry_def)
  then have "\<exists>e. log_entry u c info msg flds w = Inr (e, w) \<and> made_by e (u, c, info, msg, flds)"
    by (auto simp: log_entry_def Let_def split: iface.splits)
  then obtain e where e: "log_entry u c info msg flds w = Inr (e, w)" "made_by e (u, c, info, msg, flds)"
    by blast
  have "sys_step js v (Call u c info msg flds) w =
      Inr (w\<lparr>buffer := (buffer w)\<lparr>items := items (buffer w) @ [e]\<rparr>\<rparr>)"
    using e(1) assms(1,3,4) by (simp add: sys_step_def log_def try_send_def)
  then show ?thesis
    using e(2) assms(5) by (auto simp: same_frame_def)
qed

lemma sys_step_Select:
  assumes "0 \<le> BatchSize (config v)" and "0 < MaxRetries (config v)"
    and "\<not> http_fails (server w (length (sent w)))"
    and "\<not> closed (buffer w)"
    and "worker w = Some [] \<or> worker w = None"
  shows "\<exists>w1. sys_step js v (Select ev) w = Inr w1 \<and> same_frame w w1
      \<and> ((\<exists>e. items (buffer w) = e # items (buffer w1)
               \<and> sent w1 = sent w @ [ndjson js (heap w) [e]]
               \<and> flushes (stdout w1) = flushes (stdout w) @ [[e]])
          \<or> (items (buffer w1) = items (buffer w) \<and> sent w1 = sent w
               \<and> flushes (stdout w1) = flushes (stdout w)))"
proof (cases "worker w")
  case None
  then have "sys_step js v (Select ev) w = Inr w" by (simp add: sys_step_def)
  then show ?thesis using None by (simp add: same_frame_def)
next
  case (Some b)
  with assms(5) have b: "worker w = Some []" by simp
  show ?thesis
  proof (cases ev)
    case Tick
    have "sys_step js v (Select ev) w = Inr (w\<lparr>worker := Some []\<rparr>)"
      using b Tick worker_step_Tick_empty[OF assms(1)] by (simp add: sys_step_def)
    then show ?thesis by (simp add: same_frame_def)
  next
    case Done
    have "sys_step js v (Select ev) w = Inr (w\<lparr>worker := if cancelled w then None else Some []\<rparr>)"
      using b Done by (simp add: sys_step_def worker_step_Done_empty)
    then show ?thesis by (simp add: same_frame_def)
  next
    case Recv
    show ?thesis
    proof (cases "items (buffer w)")
      case Nil
      have "sys_step js v (Select ev) w = Inr (w\<lparr>worker := Some []\<rparr>)"
        using b Recv worker_step_Recv_idle[OF Nil assms(4)] by (simp add: sys_step_def)
      then show ?thesis by (simp add: same_frame_def)
    next
      case (Cons e rest)
      let ?w0 = "w\<lparr>buffer := (buffer w)\<lparr>items := rest\<rparr>\<rparr>"
      let ?w1 = "(sendBatch js v [e] ?w0)\<lparr>worker := Some []\<rparr>"
      have st: "sys_step js v (Select ev) w = Inr ?w1"
        using b Recv worker_step_Recv[OF assms(1) Cons, of js "[]"] by (simp add: sys_step_def)
      have ok: "\<not> http_fails (server ?w0 (length (sent ?w0)))" using assms(3) by simp
      have ne: "[e] \<noteq> []" by simp
      note F = sendBatch_ok_fields[OF ne assms(2) ok, of js]
      have fl: "flushes (stdout ?w1) = flushes (stdout w) @ [[e]]"
        by (simp add: sendBatch_flushes)
      have "same_frame w ?w1"
        by (simp add: same_frame_def F)
      moreover have "items (buffer w) = e # items (buffer ?w1)"
        by (simp add: F Cons)
      moreover have "sent ?w1 = sent w @ [ndjson js (heap w) [e]]"
        by (simp add: F)
      ultimately show ?thesis using st fl by blast
    qed
  qed
qed

lemma deref_heap: "heap w1 = heap w \<Longrightarrow> deref w1 r = deref w r"
  by (cases r) (simp_all add: deref_def)

lemma sys_run_inv:
  assumes "worker w = Some [] \<or> worker w = None" and "\<not> closed (buffer w)"
    and "0 \<le> BatchSize (config v)" and "0 < MaxRetries (config v)"
    and "\<forall>k. \<not> http_fails (server w k)"
    and "\<forall>u c i m f. Call u c i m f \<in> set acts \<longrightarrow> Async (config u) \<and> deref w (contextFields u) = []"
    and "length (items (buffer w)) + length (calls acts) \<le> cap (buffer w)"
  shows "\<exists>w' enq deq. sys_run js v acts w = Inr w' \<and> same_frame w w'
      \<and> items (buffer w) @ enq = deq @ items (buffer w')
      \<and> list_all2 made_by enq (calls acts)
      \<and> flushes (stdout w') = flushes (stdout w) @ map (\<lambda>e. [e]) deq
      \<and> sent w' = sent w @ map (\<lambda>e. ndjson js (heap w) [e]) deq"
  using assms
proof (induction acts arbitrary: w)
  case Nil
  have "sys_run js v [] w = Inr w \<and> same_frame w w
      \<and> items (buffer w) @ [] = [] @ items (buffer w)
      \<and> list_all2 made_by [] (calls [])
      \<and> flushes (stdout w) = flushes (stdout w) @ map (\<lambda>e. [e]) []
      \<and> sent w = sent w @ map (\<lambda>e. ndjson js (heap w) [e]) []"
    using Nil.prems(1) by (simp add: same_frame_def)
  then show ?case by blast
next
  case (Cons act acts)
  note inv = Cons.prems
  have ok0: "\<not> http_fails (server w (length (sent w)))" using inv(5) by simp
  show ?case
  proof (cases act)
    case (Call u c info msg flds)
    have a: "Async (config u)" "deref w (contextFields u) = []"
      using inv(6) Call by simp_all
    have room: "length (items (buffer w)) < cap (buffer w)"
      using inv(7) Call by simp
    obtain e w1 where st: "sys_step js v (Call u c info msg flds) w = Inr w1"
      and fr: "same_frame w w1" and mb: "made_by e (u, c, info, msg, flds)"
      and it: "items (buffer w1) = items (buffer w) @ [e]" and se: "sent w1 = sent w"
      and fl: "flushes (stdout w1) = flushes (stdout w)"
      using sys_step_Call[OF a inv(2) room inv(1)] by blast
    have p1: "worker w1 = Some [] \<or> worker w1 = None" using fr by (simp add: same_frame_def)
    have p2: "\<not> closed (buffer w1)" using fr inv(2) by (simp add: same_frame_def)
    have p5: "\<forall>k. \<not> http_fails (server w1 k)" using fr inv(5) by (simp add: same_frame_def)
    have hp: "heap w1 = heap w" using fr by (simp add: same_frame_def)
    have p6: "\<forall>u c i m f. Call u c i m f \<in> set acts \<longrightarrow> Async (config u) \<and> deref w1 (contextFields u) = []"
      using inv(6) by (simp add: deref_heap[OF hp])
    have p7: "length (items (buffer w1)) + length (calls acts) \<le> cap (buffer w1)"
      using inv(7) Call it fr by (simp add: same_frame_def)
    obtain w' enq deq where r: "sys_run js v acts w1 = Inr w'" and fr': "same_frame w1 w'"
      and q: "items (buffer w1) @ enq = deq @ items (buffer w')"
      and la: "list_all2 made_by enq (calls acts)"
      and fl': "flushes (stdout w') = flushes (stdout w1) @ map (\<lambda>e. [e]) deq"
      and se': "sent w' = sent w1 @ map (\<lambda>e. ndjson js (heap w1) [e]) deq"
      using Cons.IH[OF p1 p2 inv(3) inv(4) p5 p6 p7] by blast
    have "sys_run js v (act # acts) w = Inr w' \<and> same_frame w w'
      \<and> items (buffer w) @ (e # enq) = deq @ items (buffer w')
      \<and> list_all2 made_by (e # enq) (calls (act # acts))
      \<and> flushes (stdout w') = flushes (stdout w) @ map (\<lambda>e. [e]) deq
      \<and> sent w' = sent w @ map (\<lambda>e. ndjson js (heap w) [e]) deq"
      using st r fr fr' q it la mb fl fl' se se' hp Call
      by (simp add: same_frame_def)
    then show ?thesis by blast
  next
    case (Select ev)
    obtain w1 where st: "sys_step js v (Select ev) w = Inr w1" and fr: "same_frame w w1"
      and alt: "(\<exists>e. items (buffer w) = e # items (buffer w1)
               \<and> sent w1 = sent w @ [ndjson js (heap w) [e]]
               \<and> flushes (stdout w1) = flushes (stdout w) @ [[e]])
          \<or> (items (buffer w1) = items (buffer w) \<and> sent w1 = sent w
               \<and> flushes (stdout w1) = flushes (stdout w))"
      using sys_step_Select[OF inv(3) inv(4) ok0 inv(2) inv(1)] by blast
    have p1: "worker w1 = Some [] \<or> worker w1 = None" using fr by (simp add: same_frame_def)
    have p2: "\<not> closed (buffer w1)" using fr inv(2) by (simp add: same_frame_def)
    have p5: "\<forall>k. \<not> http_fails (server w1 k)" using fr inv(5) by (simp add: same_frame_def)
    have hp: "heap w1 = heap w" using fr by (simp add: same_frame_def)
    have p6: "\<forall>u c i m f. Call u c i m f \<in> set acts \<longrightarrow> Async (config u) \<and> deref w1 (contextFields u) = []"
      using inv(6) by (simp add: deref_heap[OF hp])
    have le: "length (items (buffer w1)) \<le> length (items (buffer w))"
      using alt by auto
    have p7: "length (items (buffer w1)) + length (calls acts) \<le> cap (buffer w1)"
      using inv(7) Select le fr by (simp add: same_frame_def)
    obtain w' enq deq where r: "sys_run js v acts w1 = Inr w'" and fr': "same_frame w1 w'"
      and q: "items (buffer w1) @ enq = deq @ items (buffer w')"
      and la: "list_all2 made_by enq (calls acts)"
      and fl': "flushes (stdout w') = flushes (stdout w1) @ map (\<lambda>e. [e]) deq"
      and se': "sent w' = sent w1 @ map (\<lambda>e. ndjson js (heap w1) [e]) deq"
      using Cons.IH[OF p1 p2 inv(3) inv(4) p5 p6 p7] by blast
    have run: "sys_run js v (act # acts) w = Inr w'" using st r Select by simp
    have frw: "same_frame w w'" using fr fr' by (simp add: same_frame_def)
    have cl: "calls (act # acts) = calls acts" using Select by simp
    from alt show ?thesis
    proof
      assume "\<exists>e. items (buffer w) = e # items (buffer w1)
               \<and> sent w1 = sent w @ [ndjson js (heap w) [e]]
               \<and> flushes (stdout w1) = flushes (stdout w) @ [[e]]"
      then obtain e where it: "items (buffer w) = e # items (buffer w1)"
        and se: "sent w1 = sent w @ [ndjson js (heap w) [e]]"
        and fl: "flushes (stdout w1) = flushes (stdout w) @ [[e]]" by blast
      have "sys_run js v (act # acts) w = Inr w' \<and> same_frame w w'
        \<and> items (buffer w) @ enq = (e # deq) @ items (buffer w')
        \<and> list_all2 made_by enq (calls (act # acts))
        \<and> flushes (stdout w') = flushes (stdout w) @ map (\<lambda>e. [e]) (e # deq)
        \<and> sent w' = sent w @ map (\<lambda>e. ndjson js (heap w) [e]) (e # deq)"
        using run frw q it la cl fl fl' se se' hp by simp
      then show ?thesis by blast
    next
      assume "items (buffer w1) = items (buffer w) \<and> sent w1 = sent w
               \<and> flushes (stdout w1) = flushes (stdout w)"
      then have "sys_run js v (act # acts) w = Inr w' \<and> same_frame w w'
        \<and> items (buffer w) @ enq = deq @ items (buffer w')
        \<and> list_all2 made_by enq (calls (act # acts))
        \<and> flushes (stdout w') = flushes (stdout w) @ map (\<lambda>e. [e]) deq
        \<and> sent w' = sent w @ map (\<lambda>e. ndjson js (heap w) [e]) deq"
        using run frw q la cl fl' se' hp by simp
      then show ?thesis by blast
    qed
  qed
qed

lemma ten_run_drained:
  "items (buffer (projr (sys_run js_demo demo_root ten_calls demo_world))) = []"
  by (simp add: ten_calls_def ten_messages_def sys_step_def log_def log_entry_def createLogEntry_def
      deref_def demo_root_simps demo_world_simps demo_config_def ctx_Value_def try_send_def
      worker_step_def chan_recv_def NewLoggerEntryBatch_def sendBatch_def print_def Let_def
      retry_from.simps sendToVictoriaLogs_def up_def js_demo_def vlEntry_of_def numeral_eq_Suc)

lemma made_by_Message:
  "list_all2 made_by enq cs \<Longrightarrow>
   map Message enq = map (\<lambda>(u, c, i, m, f). m) cs \<and> map Fields enq = map (\<lambda>(u, c, i, m, f). f) cs"
  by (induction enq cs rule: list_all2_induct) auto

text \<open>
  Claim C5. A turn of the worker that receives an entry appends it to the batch, sends
  that batch at once and starts a new, empty one. So in every run (any interleaving of
  logging calls and turns of the worker) that starts with the worker holding nothing, on an
  open buffer that the calls do not overfill, with \<^verbatim>\<open>MaxRetries\<close> positive, a server that
  accepts every exchange and callers without context fields: the run completes, the entries
  dequeued are a prefix of those queued, in the order of the calls, each one was sent in a
  batch of its own, and there was exactly one exchange per dequeued entry, carrying that
  entry's payload, with no sleep. When the buffer starts and ends empty, that is one exchange
  per call: ten for ten calls.
\<close>

theorem worker_flushes_each_entry:
  assumes "worker w = Some []" and "\<not> closed (buffer w)"
    and "0 \<le> BatchSize (config v)" and "0 < MaxRetries (config v)"
    and "\<forall>k. \<not> http_fails (server w k)"
    and "\<forall>u c i m f. Call u c i m f \<in> set acts \<longrightarrow> Async (config u) \<and> deref w (contextFields u) = []"
    and "length (items (buffer w)) + length (calls acts) \<le> cap (buffer w)"
  shows "(\<forall>e rest batch. items (buffer w) = e # rest \<longrightarrow>
            worker_step js v Recv batch w =
              Inr (Some [], sendBatch js v (batch @ [e]) (w\<lparr>buffer := (buffer w)\<lparr>items := rest\<rparr>\<rparr>)))
       \<and> (\<exists>w' enq deq. sys_run js v acts w = Inr w'
            \<and> items (buffer w) @ enq = deq @ items (buffer w')
            \<and> list_all2 made_by enq (calls acts)
            \<and> flushes (stdout w') = flushes (stdout w) @ map (\<lambda>e. [e]) deq
            \<and> sent w' = sent w @ map (\<lambda>e. ndjson js (heap w) [e]) deq
            \<and> slept w' = slept w
            \<and> (items (buffer w) = [] \<and> items (buffer w') = [] \<longrightarrow>
                  deq = enq \<and> length (sent w') = length (sent w) + length (calls acts)))"
proof -
  have a: "\<forall>e rest batch. items (buffer w) = e # rest \<longrightarrow>
            worker_step js v Recv batch w =
              Inr (Some [], sendBatch js v (batch @ [e]) (w\<lparr>buffer := (buffer w)\<lparr>items := rest\<rparr>\<rparr>))"
    using worker_step_Recv[OF assms(3)] by blast
  have w0: "worker w = Some [] \<or> worker w = None" using assms(1) by simp
  obtain w' enq deq where r: "sys_run js v acts w = Inr w'" and fr: "same_frame w w'"
    and q: "items (buffer w) @ enq = deq @ items (buffer w')"
    and la: "list_all2 made_by enq (calls acts)"
    and fl: "flushes (stdout w') = flushes (stdout w) @ map (\<lambda>e. [e]) deq"
    and se: "sent w' = sent w @ map (\<lambda>e. ndjson js (heap w) [e]) deq"
    using sys_run_inv[OF w0 assms(2-7)] by blast
  have sl: "slept w' = slept w" using fr by (simp add: same_frame_def)
  have len: "length enq = length (calls acts)" using la by (rule list_all2_lengthD)
  have e: "items (buffer w) = [] \<and> items (buffer w') = [] \<longrightarrow>
                  deq = enq \<and> length (sent w') = length (sent w) + length (calls acts)"
    using q se len by auto
  from a r q la fl se sl e show ?thesis by blast
qed

theorem worker_flushes_each_entry_witness:
  "worker demo_world = Some [] \<and> \<not> closed (buffer demo_world)
   \<and> 0 \<le> BatchSize (config demo_root) \<and> 0 < MaxRetries (config demo_root)
   \<and> (\<forall>k. \<not> http_fails (server demo_world k))
   \<and> length (calls ten_calls) = 10
   \<and> length (items (buffer demo_world)) + length (calls ten_calls) \<le> cap (buffer demo_world)
   \<and> \<not> isl (sys_run js_demo demo_root ten_calls demo_world)
   \<and> sent (projr (sys_run js_demo demo_root ten_calls demo_world))
       = map (\<lambda>m. m @ [CHR 0x0A]) ten_messages
   \<and> length (sent (projr (sys_run js_demo demo_root ten_calls demo_world))) = 10
   \<and> map (map Message) (flushes (stdout (projr (sys_run js_demo demo_root ten_calls demo_world))))
       = map (\<lambda>m. [m]) ten_messages"
proof -
  have h1: "worker demo_world = Some []" by (simp add: demo_world_simps)
  have h2: "\<not> closed (buffer demo_world)" by (simp add: demo_world_simps)
  have h3: "0 \<le> BatchSize (config demo_root)" by (simp add: demo_root_simps demo_config_def)
  have h4: "0 < MaxRetries (config demo_root)" by (simp add: demo_root_simps demo_config_def)
  have h5: "\<forall>k. \<not> http_fails (server demo_world k)"
    by (simp add: demo_world_simps up_def http_fails_def)
  have cs: "calls ten_calls = map (\<lambda>m. (demo_root, [], INFO, m, NilMap)) ten_messages"
    by (simp add: ten_calls_def ten_messages_def numeral_eq_Suc)
  have h6: "\<forall>u c i m f. Call u c i m f \<in> set ten_calls \<longrightarrow>
      Async (config u) \<and> deref demo_world (contextFields u) = []"
    by (auto simp: ten_calls_def demo_root_simps demo_config_def deref_def demo_world_simps)
  have n: "length (calls ten_calls) = 10" by (simp add: cs ten_messages_def)
  have h7: "length (items (buffer demo_world)) + length (calls ten_calls) \<le> cap (buffer demo_world)"
    by (simp add: n demo_world_simps)
  from worker_flushes_each_entry[OF h1 h2 h3 h4 h5 h6 h7, of js_demo]
  obtain w' enq deq where r: "sys_run js_demo demo_root ten_calls demo_world = Inr w'"
    and la: "list_all2 made_by enq (calls ten_calls)"
    and fl: "flushes (stdout w') = flushes (stdout demo_world) @ map (\<lambda>e. [e]) deq"
    and se: "sent w' = sent demo_world @ map (\<lambda>e. ndjson js_demo (heap demo_world) [e]) deq"
    and e: "items (buffer demo_world) = [] \<and> items (buffer w') = [] \<longrightarrow>
                  deq = enq \<and> length (sent w') = length (sent demo_world) + length (calls ten_calls)"
    by blast
  have "items (buffer w') = []" using ten_run_drained r by simp
  then have de: "deq = enq" and ls: "length (sent w') = 10"
    using e n by (simp_all add: demo_world_simps)
  have ms: "map Message enq = ten_messages" and fs: "map Fields enq = map (\<lambda>m. NilMap) ten_messages"
    using made_by_Message[OF la] by (simp_all add: cs comp_def)
  have nil: "\<forall>x \<in> set enq. Fields x = NilMap"
  proof
    fix x assume "x \<in> set enq"
    then have "Fields x \<in> set (map Fields enq)" by simp
    then show "Fields x = NilMap" unfolding fs by auto
  qed
  have "map (\<lambda>e. ndjson js_demo (heap demo_world) [e]) enq = map (\<lambda>e. Message e @ [CHR 0x0A]) enq"
    using nil by (simp add: js_demo_def vlEntry_of_def)
  also have "\<dots> = map (\<lambda>m. m @ [CHR 0x0A]) (map Message enq)" by (simp add: comp_def)
  finally have s: "sent w' = map (\<lambda>m. m @ [CHR 0x0A]) ten_messages"
    using se de ms by (simp add: demo_world_simps)
  have "map (map Message) (flushes (stdout w')) = map (\<lambda>m. [m]) (map Message enq)"
    using fl de by (simp add: demo_world_simps comp_def)
  then have f: "map (map Message) (flushes (stdout w')) = map (\<lambda>m. [m]) ten_messages"
    using ms by simp
  show ?thesis using h1 h2 h3 h4 h5 n h7 r s ls f by simp
qed

section \<open>Shutdown\<close>

lemma worker_step_frame:
  assumes "0 \<le> BatchSize (config v)"
  shows "\<exists>b w1. worker_step js v ev batch w = Inr (b, w1) \<and> cancelled w1 = cancelled w
      \<and> closed (buffer w1) = closed (buffer w) \<and> batchChan w1 = batchChan w"
proof (cases ev)
  case Recv
  show ?thesis
  proof (cases "chan_recv zero_entry (buffer w)")
    case None
    then show ?thesis using Recv by (simp add: worker_step_def)
  next
    case (Some p)
    obtain entry ch where p: "p = (entry, ch)" by (cases p)
    have c: "closed ch = closed (buffer w)"
      using Some p by (auto simp: chan_recv_def split: list.splits if_splits)
    have "worker_step js v ev batch w =
        Inr (Some [], sendBatch js v (batch @ [entry]) (w\<lparr>buffer := ch\<rparr>))"
      using Recv Some p assms by (simp add: worker_step_def NewLoggerEntryBatch_def Let_def)
    then show ?thesis using c by (simp add: sendBatch_keeps)
  qed
next
  case Tick
  then have "worker_step js v ev batch w =
      Inr (Some [], if length batch > 0 then sendBatch js v batch w else w)"
    using assms by (simp add: worker_step_def NewLoggerEntryBatch_def Let_def)
  then show ?thesis by (simp add: sendBatch_keeps)
next
  case Done
  then have "worker_step js v ev batch w =
      (if cancelled w then Inr (None, if length batch > 0 then sendBatch js v batch w else w)
       else Inr (Some batch, w))"
    by (simp add: worker_step_def)
  then show ?thesis by (simp add: sendBatch_keeps)
qed

lemma worker_exit_returns:
  assumes "0 \<le> BatchSize (config v)" and "cancelled w"
  shows "\<exists>w1. worker_exit js v sched batch w = Inr (None, w1) \<and> cancelled w1
      \<and> closed (buffer w1) = closed (buffer w) \<and> batchChan w1 = batchChan w"
  using assms(2)
proof (induction sched arbitrary: batch w)
  case Nil
  then have "worker_exit js v [] batch w =
      Inr (None, if length batch > 0 then sendBatch js v batch w else w)"
    by (simp add: worker_step_def)
  then show ?case using Nil by (simp add: sendBatch_keeps)
next
  case (Cons ev sched)
  obtain b w1 where st: "worker_step js v ev batch w = Inr (b, w1)" and c: "cancelled w1 = cancelled w"
    and cl: "closed (buffer w1) = closed (buffer w)" and bc: "batchChan w1 = batchChan w"
    using worker_step_frame[OF assms(1)] by blast
  show ?case
  proof (cases b)
    case None
    then have "worker_exit js v (ev # sched) batch w = Inr (None, w1)" using st by simp
    then show ?thesis using c cl bc Cons.prems by simp
  next
    case (Some b')
    have c1: "cancelled w1" using c Cons.prems by simp
    obtain w2 where "worker_exit js v sched b' w1 = Inr (None, w2)" "cancelled w2"
      "closed (buffer w2) = closed (buffer w1)" "batchChan w2 = batchChan w1"
      using Cons.IH[OF c1] by blast
    moreover have "worker_exit js v (ev # sched) batch w = worker_exit js v sched b' w1"
      using st Some by simp
    ultimately show ?thesis using cl bc by simp
  qed
qed

lemma Close_closed:
  assumes "closed (buffer w)" and "wg u = 0 \<or> worker w = None"
  shows "Close js u sched w = Inl CloseClosedChannel"
proof -
  have "wg_Wait js u sched (w\<lparr>cancelled := True\<rparr>) = Inr (w\<lparr>cancelled := True\<rparr>)"
    using assms(2) by (auto simp: wg_Wait_def)
  then show ?thesis using assms(1) by (simp add: Close_def close_chan_def)
qed

lemma Close_root:
  assumes "0 < wg v" and "worker w = Some batch" and "\<not> closed (buffer w)"
    and "\<not> closed (batchChan w)" and "0 \<le> BatchSize (config v)"
  shows "\<exists>w1. worker_exit js v sched batch (w\<lparr>cancelled := True\<rparr>) = Inr (None, w1)
      \<and> Close js v sched w =
          Inr (None, w1\<lparr>worker := None, buffer := (buffer w1)\<lparr>closed := True\<rparr>,
                        batchChan := (batchChan w1)\<lparr>closed := True\<rparr>\<rparr>)
      \<and> cancelled w1"
proof -
  let ?w0 = "w\<lparr>cancelled := True\<rparr>"
  have c0: "cancelled ?w0" by simp
  obtain w1 where ex: "worker_exit js v sched batch ?w0 = Inr (None, w1)" and c: "cancelled w1"
    and cl: "closed (buffer w1) = closed (buffer ?w0)" and bc: "batchChan w1 = batchChan ?w0"
    using worker_exit_returns[OF assms(5) c0] by blast
  have "wg_Wait js v sched ?w0 = Inr (w1\<lparr>worker := None\<rparr>)"
    using assms(1,2) ex by (simp add: wg_Wait_def)
  then have "Close js v sched w =
          Inr (None, w1\<lparr>worker := None, buffer := (buffer w1)\<lparr>closed := True\<rparr>,
                        batchChan := (batchChan w1)\<lparr>closed := True\<rparr>\<rparr>)"
    using cl bc assms(3,4) by (simp add: Close_def close_chan_def)
  then show ?thesis using ex c by blast
qed

text \<open>
  Claim C2 fails on the code: the second \<^verbatim>\<open>Close\<close> of the logger of \<^verbatim>\<open>cmd/main.go\<close>
  panics, closing a channel that the first one closed.
\<close>

theorem second_Close_panics_counterexample:
  "\<not> isl (Close js_demo demo_root [] demo_world)
   \<and> Close js_demo demo_root [] (snd (projr (Close js_demo demo_root [] demo_world)))
       = Inl CloseClosedChannel"
proof -
  have h: "0 < wg demo_root" "worker demo_world = Some []" "\<not> closed (buffer demo_world)"
    "\<not> closed (batchChan demo_world)" "0 \<le> BatchSize (config demo_root)"
    by (simp_all add: demo_root_simps demo_world_simps demo_config_def)
  obtain w1 where c: "Close js_demo demo_root [] demo_world =
          Inr (None, w1\<lparr>worker := None, buffer := (buffer w1)\<lparr>closed := True\<rparr>,
                        batchChan := (batchChan w1)\<lparr>closed := True\<rparr>\<rparr>)"
    using Close_root[OF h] by blast
  show ?thesis
    unfolding c by (simp add: Close_closed)
qed

text \<open>
  Claim C2, as the code has it. \<^verbatim>\<open>Close\<close> on the logger that started the worker, with both
  channels open: whatever cases the worker's \<^verbatim>\<open>select\<close> still takes, the worker returns,
  both channels get closed and \<^verbatim>\<open>Close\<close> returns nil. When the worker sees the cancellation
  first, it sends its batch once if it holds entries, and sends nothing if it does not.
  \<^verbatim>\<open>Close\<close> is not idempotent: after it, every further \<^verbatim>\<open>Close\<close>, on this logger or on one
  derived from it, panics on closing a closed channel.
\<close>

theorem Close_stops_worker_once:
  assumes "0 < wg v" and "worker w = Some batch" and "\<not> closed (buffer w)"
    and "\<not> closed (batchChan w)" and "0 \<le> BatchSize (config v)"
  shows "(\<exists>w'. Close js v sched w = Inr (None, w') \<and> worker w' = None \<and> cancelled w'
            \<and> closed (buffer w') \<and> closed (batchChan w')
            \<and> (\<forall>u sched2. Close js u sched2 w' = Inl CloseClosedChannel))
       \<and> (\<exists>w'. Close js v [] w = Inr (None, w')
            \<and> flushes (stdout w') = flushes (stdout w) @ (if batch = [] then [] else [batch]))"
proof -
  obtain w1 where c: "Close js v sched w =
          Inr (None, w1\<lparr>worker := None, buffer := (buffer w1)\<lparr>closed := True\<rparr>,
                        batchChan := (batchChan w1)\<lparr>closed := True\<rparr>\<rparr>)" and ca: "cancelled w1"
    using Close_root[OF assms] by blast
  let ?w' = "w1\<lparr>worker := None, buffer := (buffer w1)\<lparr>closed := True\<rparr>,
                        batchChan := (batchChan w1)\<lparr>closed := True\<rparr>\<rparr>"
  have "\<forall>u sched2. Close js u sched2 ?w' = Inl CloseClosedChannel"
    by (simp add: Close_closed)
  then have a: "\<exists>w'. Close js v sched w = Inr (None, w') \<and> worker w' = None \<and> cancelled w'
            \<and> closed (buffer w') \<and> closed (batchChan w')
            \<and> (\<forall>u sched2. Close js u sched2 w' = Inl CloseClosedChannel)"
    using c ca by simp
  obtain w2 where e: "worker_exit js v [] batch (w\<lparr>cancelled := True\<rparr>) = Inr (None, w2)"
    and c2: "Close js v [] w =
          Inr (None, w2\<lparr>worker := None, buffer := (buffer w2)\<lparr>closed := True\<rparr>,
                        batchChan := (batchChan w2)\<lparr>closed := True\<rparr>\<rparr>)"
    using Close_root[OF assms] by blast
  have "w2 = (if length batch > 0 then sendBatch js v batch (w\<lparr>cancelled := True\<rparr>) else w\<lparr>cancelled := True\<rparr>)"
    using e by (simp add: worker_step_def)
  then have "flushes (stdout w2) = flushes (stdout w) @ (if batch = [] then [] else [batch])"
    by (simp add: sendBatch_flushes)
  then have b: "\<exists>w'. Close js v [] w = Inr (None, w')
            \<and> flushes (stdout w') = flushes (stdout w) @ (if batch = [] then [] else [batch])"
    using c2 by simp
  from a b show ?thesis by blast
qed

theorem Close_stops_worker_once_witness:
  "0 < wg demo_root \<and> worker (demo_world\<lparr>worker := Some [good_entry ''x'']\<rparr>) = Some [good_entry ''x'']
   \<and> \<not> closed (buffer (demo_world\<lparr>worker := Some [good_entry ''x'']\<rparr>))
   \<and> \<not> closed (batchChan (demo_world\<lparr>worker := Some [good_entry ''x'']\<rparr>))
   \<and> 0 \<le> BatchSize (config demo_root)
   \<and> \<not> isl (Close js_demo demo_root [Recv, Tick] (demo_world\<lparr>worker := Some [good_entry ''x'']\<rparr>))
   \<and> worker (snd (projr (Close js_demo demo_root [Recv, Tick] (demo_world\<lparr>worker := Some [good_entry ''x'']\<rparr>)))) = None
   \<and> flushes (stdout (snd (projr (Close js_demo demo_root [] (demo_world\<lparr>worker := Some [good_entry ''x'']\<rparr>)))))
       = [[good_entry ''x'']]"
proof -
  let ?w = "demo_world\<lparr>worker := Some [good_entry ''x'']\<rparr>"
  have h: "0 < wg demo_root" "worker ?w = Some [good_entry ''x'']" "\<not> closed (buffer ?w)"
    "\<not> closed (batchChan ?w)" "0 \<le> BatchSize (config demo_root)"
    by (simp_all add: demo_root_simps demo_world_simps demo_config_def)
  note T = Close_stops_worker_once[OF h, of js_demo]
  obtain w' where a: "Close js_demo demo_root [Recv, Tick] ?w = Inr (None, w')" "worker w' = None"
    using T[of "[Recv, Tick]"] by blast
  obtain w'' where b: "Close js_demo demo_root [] ?w = Inr (None, w'')"
    "flushes (stdout w'') = flushes (stdout ?w) @ (if [good_entry ''x''] = [] then [] else [[good_entry ''x'']])"
    using T[of "[]"] by blast
  show ?thesis using h a b by (simp add: demo_world_simps)
qed

end
